theory Spec2Isabelle
  imports Main "HOL-Library.AList" "HOL-Library.Word"
begin

section \<open>Errors of the tholaerr package\<close>

text \<open>
  Modelled from the spec: the package \<^verbatim>\<open>tholaerr\<close> is not part of the sources at hand;
  only its constructors and predicates are called. The spec names the outcomes
  NotImplemented, NotFound, the component-level not-found and hard failures.
  Every error of another type (\<^verbatim>\<open>errors.New\<close>, \<^verbatim>\<open>fmt.Errorf\<close>, a parse error of \<^verbatim>\<open>strconv\<close>, a
  failure of the transport) is \<open>OtherError\<close>, a run-time panic of Go is \<open>Panic\<close>, and
  \<^verbatim>\<open>errors.Wrap\<close> keeps its cause, through which the predicates look.
\<close>

datatype error =
    NotImplementedError string
  | NotFoundError string
  | ComponentNotFoundError string
  | OtherError string
  | Panic string
  | Wrap error string

fun IsNotImplementedError :: "error \<Rightarrow> bool" where
  "IsNotImplementedError (NotImplementedError m) = True"
| "IsNotImplementedError (Wrap e m) = IsNotImplementedError e"
| "IsNotImplementedError e = False"

fun IsNotFoundError :: "error \<Rightarrow> bool" where
  "IsNotFoundError (NotFoundError m) = True"
| "IsNotFoundError (Wrap e m) = IsNotFoundError e"
| "IsNotFoundError e = False"


section \<open>The three-step resolution chain\<close>

text \<open>
  An \<^verbatim>\<open>adapterFunc\<close> called on the fixed arguments of one resolution yields a value or an
  error; a \<^verbatim>\<open>nil\<close> function is \<open>None\<close>. The steps are tried in the order of the source,
  each early \<^verbatim>\<open>return\<close> being a branch: the override step and the inherited step each either
  return from the function (\<open>Inr ret\<close>, with the value or error \<open>ret\<close> returned) or leave their
  error \<^verbatim>\<open>err2\<close>, \<^verbatim>\<open>err3\<close> to the code that follows (\<open>Inl\<close>).
\<close>

definition executeWithRecursion ::
  "error + 'a \<Rightarrow> (error + 'a) option \<Rightarrow> (error + 'a) option \<Rightarrow> error + 'a" where
  "executeWithRecursion fClass fCom fSub =
     (case fClass of
        Inr v \<Rightarrow> Inr v
      | Inl err1 \<Rightarrow>
          if \<not> IsNotImplementedError err1 then Inl err1
          else
            (case (case fCom of
                     Some r2 \<Rightarrow>
                       (case r2 of
                          Inr v \<Rightarrow> Inr (Inr v)
                        | Inl err2 \<Rightarrow>
                            if \<not> IsNotImplementedError err2 then Inr (Inl err2)
                            else Inl err2)
                   | None \<Rightarrow> Inl (NotImplementedError ''no communicator available'')) of
               Inr ret \<Rightarrow> ret
             | Inl err2 \<Rightarrow>
                 (case (case fSub of
                          Some r3 \<Rightarrow>
                            (case r3 of
                               Inr v \<Rightarrow> Inr (Inr v)
                             | Inl err3 \<Rightarrow>
                                 if \<not> IsNotFoundError err3 then Inr (Inl err3)
                                 else Inl err3)
                        | None \<Rightarrow>
                            Inl (NotImplementedError
                                   ''no parent communicator with implementation available'')) of
                    Inr ret \<Rightarrow> ret
                  | Inl err3 \<Rightarrow>
                      if IsNotImplementedError err1 \<and> IsNotImplementedError err2
                         \<and> IsNotImplementedError err3
                      then Inl (NotImplementedError ''no detection information available'')
                      else Inl (NotFoundError
                                  ''failed to get information through any device class''))))"

section \<open>Communicators\<close>

text \<open>
  Modelled from the spec: the type \<^verbatim>\<open>device.Interface\<close> is not part of the sources at hand.
  The fields are those the source reads and writes; an unset pointer field is \<open>None\<close>.
  \<^verbatim>\<open>IfIndex\<close> is compared with a \<^verbatim>\<open>uint64\<close>, and the speeds are taken to have the same width.
\<close>

record SAPInterface =
  Inbound :: "64 word option"
  Outbound :: "64 word option"

record Interface =
  IfIndex :: "64 word option"
  IfSpeed :: "64 word option"
  IfHighSpeed :: "64 word option"
  SAP :: "SAPInterface option"

text \<open>
  The other fields of an interface are the extension \<open>'i\<close> of the record, which no function
  below touches.
\<close>

text \<open>
  The methods of \<^verbatim>\<open>availableCommunicatorFunctions\<close> that the verified functions call, each
  as the outcome of calling it with the context of the poll. The communicator adapter only
  repackages the outcome.
\<close>

record 'i availableCommunicatorFunctions =
  getVendor :: "error + string"
  getModel :: "error + string"
  getModelSeries :: "error + string"
  getSerialNumber :: "error + string"
  getOSVersion :: "error + string"
  getInterfaces :: "error + 'i Interface_scheme list"

text \<open>
  The device class communicator: its name, whether the interfaces component is among its
  available components, and its methods.
\<close>

record 'i deviceClassCommunicator =
  getName :: string
  hasInterfacesComponent :: bool
  classFunctions :: "'i availableCommunicatorFunctions"

text \<open>
  A \<^verbatim>\<open>networkDeviceCommunicator\<close>. Of the head communicator the methods below use only
  \<^verbatim>\<open>GetDeviceClass()\<close>, so the head is kept by its device class. The parent \<^verbatim>\<open>sub\<close> is an
  interface value: the methods of the parent communicator, or \<open>None\<close> for \<^verbatim>\<open>nil\<close>.
\<close>

record 'i networkDeviceCommunicator =
  headDeviceClass :: string
  sub :: "'i availableCommunicatorFunctions option"
  codeCommunicator :: "'i availableCommunicatorFunctions option"
  deviceClassCommunicator :: "'i deviceClassCommunicator"

definition GetDeviceClass :: "'i networkDeviceCommunicator \<Rightarrow> string" where
  "GetDeviceClass c = getName (deviceClassCommunicator c)"

definition isHead :: "'i networkDeviceCommunicator \<Rightarrow> bool" where
  "isHead c = (headDeviceClass c = GetDeviceClass c)"

definition GetVendor :: "'i networkDeviceCommunicator \<Rightarrow> error + string" where
  "GetVendor c =
     (case executeWithRecursion (getVendor (classFunctions (deviceClassCommunicator c)))
             (map_option getVendor (codeCommunicator c)) (map_option getVendor (sub c)) of
        Inl err \<Rightarrow> Inl err
      | Inr s \<Rightarrow> if s = [] then Inl (NotFoundError ''empty string returned'') else Inr s)"

definition GetModel :: "'i networkDeviceCommunicator \<Rightarrow> error + string" where
  "GetModel c =
     (case executeWithRecursion (getModel (classFunctions (deviceClassCommunicator c)))
             (map_option getModel (codeCommunicator c)) (map_option getModel (sub c)) of
        Inl err \<Rightarrow> Inl err
      | Inr s \<Rightarrow> if s = [] then Inl (NotFoundError ''empty string returned'') else Inr s)"

definition GetModelSeries :: "'i networkDeviceCommunicator \<Rightarrow> error + string" where
  "GetModelSeries c =
     (case executeWithRecursion (getModelSeries (classFunctions (deviceClassCommunicator c)))
             (map_option getModelSeries (codeCommunicator c))
             (map_option getModelSeries (sub c)) of
        Inl err \<Rightarrow> Inl err
      | Inr s \<Rightarrow> if s = [] then Inl (NotFoundError ''empty string returned'') else Inr s)"

definition GetSerialNumber :: "'i networkDeviceCommunicator \<Rightarrow> error + string" where
  "GetSerialNumber c =
     (case executeWithRecursion (getSerialNumber (classFunctions (deviceClassCommunicator c)))
             (map_option getSerialNumber (codeCommunicator c))
             (map_option getSerialNumber (sub c)) of
        Inl err \<Rightarrow> Inl err
      | Inr s \<Rightarrow> if s = [] then Inl (NotFoundError ''empty string returned'') else Inr s)"

definition GetOSVersion :: "'i networkDeviceCommunicator \<Rightarrow> error + string" where
  "GetOSVersion c =
     (case executeWithRecursion (getOSVersion (classFunctions (deviceClassCommunicator c)))
             (map_option getOSVersion (codeCommunicator c))
             (map_option getOSVersion (sub c)) of
        Inl err \<Rightarrow> Inl err
      | Inr s \<Rightarrow> if s = [] then Inl (NotFoundError ''empty string returned'') else Inr s)"

text \<open>
  The finishing pass over the interface list. Each round of the loop reads element \<open>i\<close> and
  writes element \<open>i\<close> only, so the loop is a map. The product is a \<^verbatim>\<open>uint64\<close> product.
\<close>

definition normalizeInterface :: "'i Interface_scheme \<Rightarrow> 'i Interface_scheme" where
  "normalizeInterface interf =
     (case (IfSpeed interf, IfHighSpeed interf) of
        (Some speed, Some high) \<Rightarrow>
          if speed = 4294967295 then interf\<lparr>IfSpeed := Some (high * 1000000)\<rparr> else interf
      | _ \<Rightarrow> interf)"

definition normalizeInterfaces :: "'i Interface_scheme list \<Rightarrow> 'i Interface_scheme list" where
  "normalizeInterfaces interfaces = map normalizeInterface interfaces"

definition GetInterfaces :: "'i networkDeviceCommunicator \<Rightarrow> error + 'i Interface_scheme list" where
  "GetInterfaces c =
     (if isHead c \<and> \<not> hasInterfacesComponent (deviceClassCommunicator c)
      then Inl (ComponentNotFoundError ''no interfaces component available for this device'')
      else
        (case executeWithRecursion (getInterfaces (classFunctions (deviceClassCommunicator c)))
                (map_option getInterfaces (codeCommunicator c))
                (map_option getInterfaces (sub c)) of
           Inl err \<Rightarrow> Inl err
         | Inr res \<Rightarrow> Inr (if isHead c then normalizeInterfaces res else res)))"

text \<open>
  A \<^verbatim>\<open>networkDeviceCommunicator\<close> as the interface value another communicator holds as its
  parent: its methods, called with the context of the poll.
\<close>

definition asCommunicator :: "'i networkDeviceCommunicator \<Rightarrow> 'i availableCommunicatorFunctions" where
  "asCommunicator c =
     \<lparr>getVendor = GetVendor c, getModel = GetModel c, getModelSeries = GetModelSeries c,
      getSerialNumber = GetSerialNumber c, getOSVersion = GetOSVersion c,
      getInterfaces = GetInterfaces c\<rparr>"

section \<open>Strings and numbers of the Go library\<close>

text \<open>\<^verbatim>\<open>strings.Split\<close> with a separator of one character: one part more than separators.\<close>

fun Split :: "string \<Rightarrow> char \<Rightarrow> string list" where
  "Split [] sep = [[]]"
| "Split (x # xs) sep =
     (if x = sep then [] # Split xs sep
      else (case Split xs sep of p # ps \<Rightarrow> (x # p) # ps | [] \<Rightarrow> [[x]]))"



definition isDigit :: "char \<Rightarrow> bool" where
  "isDigit ch = ((48::nat) \<le> of_char ch \<and> of_char ch \<le> (57::nat))"

text \<open>The value of a string of digits in a base, most significant digit first.\<close>

definition digitsValue :: "nat \<Rightarrow> nat list \<Rightarrow> nat" where
  "digitsValue base ds = foldl (\<lambda>n d. n * base + d) 0 ds"

text \<open>
  \<^verbatim>\<open>strconv.Atoi\<close> for the 64-bit \<^verbatim>\<open>int\<close>: an optional sign, then decimal digits only, and the
  value within the range of \<^verbatim>\<open>int\<close>.
\<close>

definition Atoi :: "string \<Rightarrow> error + int" where
  "Atoi s0 =
     (let neg = (s0 \<noteq> [] \<and> hd s0 = CHR ''-'');
          s = (if s0 \<noteq> [] \<and> (hd s0 = CHR ''-'' \<or> hd s0 = CHR ''+'') then tl s0 else s0)
      in if s = [] \<or> \<not> list_all isDigit s
         then Inl (OtherError (''strconv.Atoi: parsing '' @ s0 @ '': invalid syntax''))
         else
           (let un = digitsValue 10 (map (\<lambda>ch. of_char ch - (48::nat)) s)
            in if \<not> neg \<and> un \<ge> 2 ^ 63 \<or> neg \<and> un > 2 ^ 63
               then Inl (OtherError (''strconv.Atoi: parsing '' @ s0 @ '': value out of range''))
               else Inr (if neg then - int un else int un)))"

section \<open>The query-tree reader\<close>

text \<open>
  A Go map is an association list with distinct keys; the order of the list is the order in
  which \<^verbatim>\<open>range\<close> visits the entries, which Go leaves open. \<^verbatim>\<open>m[k] = v\<close> is \<open>AList.update\<close>,
  \<^verbatim>\<open>delete(m, k)\<close> is \<open>AList.delete\<close> and a lookup is \<open>map_of\<close>.

  A value of type \<^verbatim>\<open>interface{}\<close> in a read result is a normalized value or a
  \<^verbatim>\<open>map[string]interface{}\<close>.
\<close>

datatype 'v rowval = Scalar 'v | Rowmap "(string \<times> 'v rowval) list"

type_synonym 'v propertyGroup = "(string \<times> 'v rowval) list"

type_synonym 'v propertyGroups = "'v propertyGroup list"

text \<open>
  Modelled from the spec: the package \<^verbatim>\<open>network\<close> and the operators are not part of the sources
  at hand. The connection of the context is a parameter: the walk of the client (\<open>None\<close> when
  the context holds no connection or no client), the two observers of a response and the
  operator pipeline, each with its failure.
\<close>

record ('r, 'c, 'o, 'v) network =
  SNMPWalk :: "(string \<Rightarrow> error + 'r list) option"
  GetOID :: "'r \<Rightarrow> string"
  GetValueBySNMPGetConfiguration :: "'r \<Rightarrow> 'c \<Rightarrow> error + string"
  applyOperators :: "'o \<Rightarrow> string \<Rightarrow> error + 'v"

record ('c, 'o) deviceClassOID =
  OID :: string
  SNMPGetConfiguration :: 'c
  operators :: 'o

text \<open>An \<^verbatim>\<open>oidReader\<close> is a \<^verbatim>\<open>*deviceClassOID\<close> or a \<^verbatim>\<open>*deviceClassOIDs\<close>.\<close>

datatype ('c, 'o) oidReader =
    DeviceClassOID "('c, 'o) deviceClassOID"
  | DeviceClassOIDs "(string \<times> ('c, 'o) oidReader) list"

type_synonym ('c, 'o) deviceClassOIDs = "(string \<times> ('c, 'o) oidReader) list"

text \<open>The loop of the leaf reader over the responses of the walk.\<close>

fun readResponses ::
  "('r, 'c, 'o, 'v) network \<Rightarrow> ('c, 'o) deviceClassOID \<Rightarrow> 'r list \<Rightarrow> (int \<times> 'v) list
     \<Rightarrow> error + (int \<times> 'v) list" where
  "readResponses n d [] result = Inr result"
| "readResponses n d (response # rest) result =
     (case GetValueBySNMPGetConfiguration n response (SNMPGetConfiguration d) of
        Inl err \<Rightarrow> Inl (Wrap err ''couldn't get value from response response'')
      | Inr res \<Rightarrow>
          if res \<noteq> [] then
            (case applyOperators n (operators d) res of
               Inl err \<Rightarrow>
                 Inl (Wrap err (''response couldn't be normalized (oid: '' @ GetOID n response
                                @ '', response: '' @ res @ '')''))
             | Inr resNormalized \<Rightarrow>
                 (case Atoi (last (Split (GetOID n response) CHR ''.'')) of
                    Inl err \<Rightarrow> Inl (Wrap err ''index isn't an integer'')
                  | Inr index \<Rightarrow>
                      readResponses n d rest (AList.update index resNormalized result)))
          else readResponses n d rest result)"

definition deviceClassOID_readOID ::
  "('r, 'c, 'o, 'v) network \<Rightarrow> ('c, 'o) deviceClassOID \<Rightarrow> error + (int \<times> 'v) list" where
  "deviceClassOID_readOID n d =
     (case SNMPWalk n of
        None \<Rightarrow> Inl (OtherError ''snmp client is empty'')
      | Some walk \<Rightarrow>
          (case walk (OID d) of
             Inl err \<Rightarrow>
               if IsNotFoundError err then Inl err else Inl (Wrap err ''failed to get oid value'')
           | Inr snmpResponse \<Rightarrow> readResponses n d snmpResponse []))"

text \<open>
  The inner loop of the group reader: the value of one label at one row index is stored in
  the group of that index, which is created when the index was not known before.
\<close>

definition setLabel ::
  "string \<Rightarrow> int \<times> 'v rowval \<Rightarrow> (int \<times> 'v propertyGroup) list \<Rightarrow> (int \<times> 'v propertyGroup) list"
  where
  "setLabel label iv result =
     (case map_of result (fst iv) of
        None \<Rightarrow> AList.update (fst iv) (AList.update label (snd iv) []) result
      | Some row \<Rightarrow> AList.update (fst iv) (AList.update label (snd iv) row) result)"

lemma size_prod_snd: "size_prod (\<lambda>x. 0) f = (\<lambda>x. Suc (f (snd x)))"
  by (rule ext) (simp add: size_prod_simp)

text \<open>
  The group reader. \<open>readLabels\<close> is its loop over the labels, with the result so far; a child
  that fails with a not-found error is passed over, any other failure ends the read. A leaf is
  read by \<open>deviceClassOID_readOID\<close>, its values being scalars.
\<close>

function (sequential) readOID ::
    "('r, 'c, 'o, 'v) network \<Rightarrow> ('c, 'o) oidReader \<Rightarrow> error + (int \<times> 'v rowval) list"
  and readLabels ::
    "('r, 'c, 'o, 'v) network \<Rightarrow> ('c, 'o) deviceClassOIDs \<Rightarrow> (int \<times> 'v propertyGroup) list
       \<Rightarrow> error + (int \<times> 'v propertyGroup) list" where
  "readOID n (DeviceClassOID d) =
     (case deviceClassOID_readOID n d of
        Inl err \<Rightarrow> Inl err
      | Inr result \<Rightarrow> Inr (map (\<lambda>kv. (fst kv, Scalar (snd kv))) result))"
| "readOID n (DeviceClassOIDs d) =
     (case readLabels n d [] of
        Inl err \<Rightarrow> Inl err
      | Inr result \<Rightarrow> Inr (fold (\<lambda>kv r. AList.update (fst kv) (Rowmap (snd kv)) r) result []))"
| "readLabels n [] result = Inr result"
| "readLabels n (lr # rest) result =
     (case readOID n (snd lr) of
        Inl err \<Rightarrow>
          if IsNotFoundError err then readLabels n rest result
          else Inl (Wrap err (''failed to get value '' @ [CHR 0x27] @ fst lr @ [CHR 0x27]))
      | Inr res \<Rightarrow> readLabels n rest (fold (setLabel (fst lr)) res result))"
  by pat_completeness auto
termination
  by (relation "measure (\<lambda>x. case x of
        Inl (n, r) \<Rightarrow> 2 * size r + 1
      | Inr (n, d, result) \<Rightarrow> 2 * size_list (\<lambda>x. Suc (size (snd x))) d + 2)")
     (auto simp: size_prod_snd)

text \<open>
  Two observations of a read result, used to state its properties: the value that the groups
  under construction hold for a label at a row index, and the same for a finished result.
\<close>

definition cellOf :: "(int \<times> 'v propertyGroup) list \<Rightarrow> int \<Rightarrow> string \<Rightarrow> 'v rowval option" where
  "cellOf result i label = (case map_of result i of None \<Rightarrow> None | Some row \<Rightarrow> map_of row label)"

definition valueAt :: "(int \<times> 'v rowval) list \<Rightarrow> int \<Rightarrow> string \<Rightarrow> 'v rowval option" where
  "valueAt r i label =
     (case map_of r i of
        None \<Rightarrow> None
      | Some (Scalar v) \<Rightarrow> None
      | Some (Rowmap row) \<Rightarrow> map_of row label)"

section \<open>The property-group decoder\<close>

text \<open>The inner loop of the sort: the smallest key of the map, \<open>0\<close> for an empty map.\<close>

definition smallestIndexOf :: "(int \<times> 'a) list \<Rightarrow> int" where
  "smallestIndexOf groups =
     fst (fold (\<lambda>kv (smallestIndex, firstRun).
                  (let s = (if firstRun then fst kv else smallestIndex)
                   in (if fst kv < s then fst kv else s, False)))
            groups (0, True))"

text \<open>
  The outer loop runs \<open>size\<close> times; each round appends the group of the smallest index
  and deletes it from the map. A value that is no \<^verbatim>\<open>map[string]interface{}\<close>, or a missing key,
  fails the type assertion; the text of that error, which names the index and the type, is
  shortened.
\<close>

fun sortGroups ::
  "nat \<Rightarrow> (int \<times> 'v rowval) list \<Rightarrow> 'v propertyGroups \<Rightarrow> error + 'v propertyGroups" where
  "sortGroups 0 groups res = Inr res"
| "sortGroups (Suc i) groups res =
     (let smallestIndex = smallestIndexOf groups
      in case map_of groups smallestIndex of
           Some (Rowmap x) \<Rightarrow> sortGroups i (AList.delete smallestIndex groups) (res @ [x])
         | _ \<Rightarrow> Inl (OtherError ''oidReader returned unexpected data type''))"

definition getProperty ::
  "('r, 'c, 'o, 'v) network \<Rightarrow> ('c, 'o) deviceClassOIDs \<Rightarrow> error + 'v propertyGroups" where
  "getProperty n oids =
     (case readOID n (DeviceClassOIDs oids) of
        Inl err \<Rightarrow> Inl (Wrap err ''failed to read oids'')
      | Inr groups \<Rightarrow> sortGroups (length groups) groups [])"

section \<open>Merging query definitions\<close>

text \<open>
  \<open>merge\<close> copies the receiver into a new map and then runs \<open>mergeOverwrite\<close>, the loop over
  the entries of \<^verbatim>\<open>overwrite\<close>, on it.
\<close>

function (sequential) merge ::
    "('c, 'o) deviceClassOIDs \<Rightarrow> ('c, 'o) deviceClassOIDs \<Rightarrow> ('c, 'o) deviceClassOIDs"
  and mergeOverwrite ::
    "('c, 'o) deviceClassOIDs \<Rightarrow> ('c, 'o) deviceClassOIDs \<Rightarrow> ('c, 'o) deviceClassOIDs" where
  "merge d overwrite =
     mergeOverwrite (fold (\<lambda>kv new. AList.update (fst kv) (snd kv) new) d []) overwrite"
| "mergeOverwrite devClassOIDsNew [] = devClassOIDsNew"
| "mergeOverwrite devClassOIDsNew (kv # rest) =
     (case (map_of devClassOIDsNew (fst kv), snd kv) of
        (Some (DeviceClassOIDs oidsOld), DeviceClassOIDs oidsOverwrite) \<Rightarrow>
          mergeOverwrite
            (AList.update (fst kv) (DeviceClassOIDs (merge oidsOld oidsOverwrite)) devClassOIDsNew)
            rest
      | _ \<Rightarrow> mergeOverwrite (AList.update (fst kv) (snd kv) devClassOIDsNew) rest)"
  by pat_completeness auto
termination
  by (relation "measure (\<lambda>x. case x of
        Inl (d, overwrite) \<Rightarrow> 2 * size_list (\<lambda>x. Suc (size (snd x))) overwrite + 1
      | Inr (new, overwrite) \<Rightarrow> 2 * size_list (\<lambda>x. Suc (size (snd x))) overwrite)")
     (auto simp: size_prod_snd)

section \<open>The secondary correlation pass of the timos SAS communicator\<close>

text \<open>\<^verbatim>\<open>lower(c)\<close> of \<^verbatim>\<open>strconv\<close> sets the bit that tells a lower-case letter from its capital.\<close>

definition lower :: "char \<Rightarrow> nat" where
  "lower c = (if (of_char c :: nat) div 32 mod 2 = 0 then of_char c + 32 else of_char c)"

text \<open>
  \<^verbatim>\<open>underscoreOK\<close> of \<^verbatim>\<open>strconv\<close>: an underscore may stand only between digits, or between a base
  prefix and a digit. \<open>saw\<close> is the last character class seen.
\<close>

fun underscoreLoop :: "bool \<Rightarrow> string \<Rightarrow> char \<Rightarrow> bool" where
  "underscoreLoop hex [] saw = (saw \<noteq> CHR ''_'')"
| "underscoreLoop hex (c # cs) saw =
     (if isDigit c \<or> hex \<and> 97 \<le> lower c \<and> lower c \<le> 102 then underscoreLoop hex cs CHR ''0''
      else if c = CHR ''_''
        then (if saw \<noteq> CHR ''0'' then False else underscoreLoop hex cs CHR ''_'')
      else if saw = CHR ''_'' then False
      else underscoreLoop hex cs CHR ''!'')"

definition underscoreOK :: "string \<Rightarrow> bool" where
  "underscoreOK s0 =
     (let s = (if s0 \<noteq> [] \<and> (hd s0 = CHR ''-'' \<or> hd s0 = CHR ''+'') then tl s0 else s0)
      in if length s \<ge> 2 \<and> hd s = CHR ''0''
            \<and> (lower (s ! 1) = 98 \<or> lower (s ! 1) = 111 \<or> lower (s ! 1) = 120)
         then underscoreLoop (lower (s ! 1) = 120) (drop 2 s) CHR ''0''
         else underscoreLoop False s CHR ''^'')"

text \<open>
  The digit loop of \<^verbatim>\<open>strconv.ParseUint\<close> with base argument 0 and 64 bits: underscores are
  passed over and remembered, a character that is no digit of the base is a syntax error, a
  value beyond \<open>2 ^ 64 - 1\<close> a range error.
\<close>

fun parseDigits :: "nat \<Rightarrow> string \<Rightarrow> nat \<Rightarrow> bool \<Rightarrow> string + nat \<times> bool" where
  "parseDigits base [] n underscores = Inr (n, underscores)"
| "parseDigits base (c # cs) n underscores =
     (if c = CHR ''_'' then parseDigits base cs n True
      else if \<not> (isDigit c \<or> 97 \<le> lower c \<and> lower c \<le> 122) then Inl ''invalid syntax''
      else
        (let d = (if isDigit c then of_char c - 48 else lower c - 97 + 10)
         in if d \<ge> base then Inl ''invalid syntax''
            else if n \<ge> (2 ^ 64 - 1) div base + 1 \<or> n * base + d > 2 ^ 64 - 1
              then Inl ''value out of range''
            else parseDigits base cs (n * base + d) underscores))"

definition ParseUint :: "string \<Rightarrow> error + 64 word" where
  "ParseUint s0 =
     (if s0 = [] then Inl (OtherError (''strconv.ParseUint: parsing '' @ s0 @ '': invalid syntax''))
      else
        (let bs =
           (if hd s0 = CHR ''0'' then
              (if length s0 \<ge> 3 \<and> lower (s0 ! 1) = 98 then (2, drop 2 s0)
               else if length s0 \<ge> 3 \<and> lower (s0 ! 1) = 111 then (8, drop 2 s0)
               else if length s0 \<ge> 3 \<and> lower (s0 ! 1) = 120 then (16, drop 2 s0)
               else (8, tl s0))
            else (10, s0))
         in case parseDigits (fst bs) (snd bs) 0 False of
              Inl msg \<Rightarrow> Inl (OtherError (''strconv.ParseUint: parsing '' @ s0 @ '': '' @ msg))
            | Inr (n, underscores) \<Rightarrow>
                if underscores \<and> \<not> underscoreOK s0
                then Inl (OtherError (''strconv.ParseUint: parsing '' @ s0 @ '': invalid syntax''))
                else Inr (of_nat n)))"

text \<open>
  \<open>getInterfaceBySubIndex\<close>: the position of the first interface with the given index. The
  source dereferences \<^verbatim>\<open>IfIndex\<close> of every interface it passes; an unset one is a panic.
\<close>

fun searchInterface :: "nat \<Rightarrow> 64 word \<Rightarrow> 'i Interface_scheme list \<Rightarrow> error + nat" where
  "searchInterface index subIndex [] = Inl (OtherError ''no interface with given index found'')"
| "searchInterface index subIndex (iface # rest) =
     (case IfIndex iface of
        None \<Rightarrow> Inl (Panic ''invalid memory address or nil pointer dereference'')
      | Some x \<Rightarrow> if x = subIndex then Inr index else searchInterface (Suc index) subIndex rest)"





section \<open>Merging in memory\<close>

text \<open>
  For the question whether \<^verbatim>\<open>merge\<close> changes its arguments the maps live in a store. A
  \<^verbatim>\<open>deviceClassOIDs\<close> is the address of its map in the store, the store being the list of all
  maps; an \<^verbatim>\<open>oidReader\<close> held in a map is a leaf (which \<^verbatim>\<open>merge\<close> never looks into, kept by its
  content) or the address of a nested map. An address outside the store is read as the empty
  map, as a \<^verbatim>\<open>nil\<close> map is in Go.
\<close>

type_synonym addr = nat

datatype ('c, 'o) readerRef = LeafRef "('c, 'o) deviceClassOID" | OIDsRef addr

type_synonym ('c, 'o) store = "(string \<times> ('c, 'o) readerRef) list list"

definition mapAt :: "('c, 'o) store \<Rightarrow> addr \<Rightarrow> (string \<times> ('c, 'o) readerRef) list" where
  "mapAt h a = (if a < length h then h ! a else [])"

text \<open>\<^verbatim>\<open>m[k] = v\<close> for the map at address \<open>a\<close>.\<close>

definition mapStore ::
  "('c, 'o) store \<Rightarrow> addr \<Rightarrow> string \<Rightarrow> ('c, 'o) readerRef \<Rightarrow> ('c, 'o) store" where
  "mapStore h a k v = h[a := AList.update k v (mapAt h a)]"

text \<open>
  \<open>merge_mem\<close> is \<^verbatim>\<open>merge\<close> on the store: \<^verbatim>\<open>make\<close> allocates the new map at the end of the store,
  the first loop copies the receiver into it, and \<open>mergeOverwrite_mem\<close> is the second loop, over
  the entries that \<^verbatim>\<open>overwrite\<close> has when the loop starts. The result is the address of the new map
  and the store after the call. The first argument bounds the depth of the recursion; \<open>None\<close>
  means that the bound was reached.
\<close>

function (sequential) merge_mem ::
    "nat \<Rightarrow> ('c, 'o) store \<Rightarrow> addr \<Rightarrow> addr \<Rightarrow> (addr \<times> ('c, 'o) store) option"
  and mergeOverwrite_mem ::
    "nat \<Rightarrow> ('c, 'o) store \<Rightarrow> addr \<Rightarrow> (string \<times> ('c, 'o) readerRef) list
       \<Rightarrow> (addr \<times> ('c, 'o) store) option" where
  "merge_mem 0 h d overwrite = None"
| "merge_mem (Suc fuel) h d overwrite =
     (let devClassOIDsNew = length h;
          h1 = fold (\<lambda>kv h'. mapStore h' devClassOIDsNew (fst kv) (snd kv)) (mapAt h d) (h @ [[]])
      in mergeOverwrite_mem fuel h1 devClassOIDsNew (mapAt h1 overwrite))"
| "mergeOverwrite_mem fuel h devClassOIDsNew [] = Some (devClassOIDsNew, h)"
| "mergeOverwrite_mem fuel h devClassOIDsNew (kv # rest) =
     (case (map_of (mapAt h devClassOIDsNew) (fst kv), snd kv) of
        (Some (OIDsRef oidsOld), OIDsRef oidsOverwrite) \<Rightarrow>
          (case merge_mem fuel h oidsOld oidsOverwrite of
             None \<Rightarrow> None
           | Some (mergedOIDs, h') \<Rightarrow>
               mergeOverwrite_mem fuel (mapStore h' devClassOIDsNew (fst kv) (OIDsRef mergedOIDs))
                 devClassOIDsNew rest)
      | _ \<Rightarrow>
          mergeOverwrite_mem fuel (mapStore h devClassOIDsNew (fst kv) (snd kv))
            devClassOIDsNew rest)"
  by pat_completeness auto
termination
  by (relation "inv_image (less_than <*lex*> less_than) (\<lambda>x. case x of
        Inl (fuel, h, d, overwrite) \<Rightarrow> (fuel, 0)
      | Inr (fuel, h, new, rest) \<Rightarrow> (fuel, Suc (length rest)))")
     auto

text \<open>
  The query-definition tree that the store holds at an address, unfolded to the given depth,
  and the stores whose maps hold addresses of the store only.
\<close>

fun treeAt :: "nat \<Rightarrow> ('c, 'o) store \<Rightarrow> addr \<Rightarrow> ('c, 'o) deviceClassOIDs" where
  "treeAt 0 h a = []"
| "treeAt (Suc depth) h a =
     map (\<lambda>kv. (fst kv,
                case snd kv of
                  LeafRef leaf \<Rightarrow> DeviceClassOID leaf
                | OIDsRef a' \<Rightarrow> DeviceClassOIDs (treeAt depth h a')))
       (mapAt h a)"

definition closedStore :: "('c, 'o) store \<Rightarrow> bool" where
  "closedStore h =
     list_all (list_all (\<lambda>kv. case snd kv of LeafRef leaf \<Rightarrow> True | OIDsRef a \<Rightarrow> a < length h)) h"

text \<open>The trees of the store that are at most \<open>depth\<close> maps deep.\<close>

fun depthWithin :: "nat \<Rightarrow> ('c, 'o) store \<Rightarrow> addr \<Rightarrow> bool" where
  "depthWithin 0 h a = False"
| "depthWithin (Suc depth) h a =
     (a < length h
      \<and> list_all (\<lambda>kv. case snd kv of LeafRef leaf \<Rightarrow> True | OIDsRef a' \<Rightarrow> depthWithin depth h a')
           (mapAt h a))"


section \<open>Properties of the resolution chain\<close>

lemma NotImplemented_not_NotFound: "IsNotImplementedError e \<Longrightarrow> \<not> IsNotFoundError e"
  by (induction e) auto

text \<open>
  C1, as the source has it: only NotImplemented leads on. A class step that succeeds is the
  result. An error of the class step that is not NotImplemented, a NotFound in particular and
  any hard failure as well, is the result of the resolution, whatever the later steps would
  give. After a class step that is not implemented the override step decides when it succeeds,
  and also when it fails with an error that is not NotImplemented: a NotFound or a hard failure
  of the override step is the result, whatever the inherited step would give. Only after a class
  and an override step that are not implemented (or with no override) does the inherited step
  decide: its value is the result, an error of it that is not NotFound is the result, and its
  absence or its NotFound end the resolution with the final error of the chain.
\<close>

theorem executeWithRecursion_continues_on_NotImplemented_only:
  fixes fCom fSub :: "(error + 'a) option"
  shows
    "executeWithRecursion (Inr v) fCom fSub = Inr v
     \<and> (\<not> IsNotImplementedError e \<longrightarrow> executeWithRecursion (Inl e) fCom fSub = Inl e)
     \<and> (IsNotFoundError e \<longrightarrow> executeWithRecursion (Inl e) fCom fSub = Inl e)
     \<and> (IsNotImplementedError e1 \<longrightarrow>
          executeWithRecursion (Inl e1) (Some (Inr v)) fSub = Inr v)
     \<and> (IsNotImplementedError e1 \<and> \<not> IsNotImplementedError e2 \<longrightarrow>
          executeWithRecursion (Inl e1) (Some (Inl e2)) fSub = Inl e2)
     \<and> (IsNotImplementedError e1 \<and> IsNotFoundError e2 \<longrightarrow>
          executeWithRecursion (Inl e1) (Some (Inl e2)) fSub = Inl e2)
     \<and> (IsNotImplementedError e1
          \<and> (fCom = None \<or> (\<exists>e2. fCom = Some (Inl e2) \<and> IsNotImplementedError e2)) \<longrightarrow>
          executeWithRecursion (Inl e1) fCom (Some (Inr v)) = Inr v
          \<and> executeWithRecursion (Inl e1) fCom fSub
              = (case fSub of
                   None \<Rightarrow> Inl (NotImplementedError ''no detection information available'')
                 | Some (Inr w) \<Rightarrow> Inr w
                 | Some (Inl e3) \<Rightarrow>
                     if IsNotFoundError e3
                     then Inl (NotFoundError
                                 ''failed to get information through any device class'')
                     else Inl e3))"
proof (intro conjI impI)
  show "executeWithRecursion (Inr v) fCom fSub = Inr v"
    by (simp add: executeWithRecursion_def)
  show "executeWithRecursion (Inl e) fCom fSub = Inl e" if "\<not> IsNotImplementedError e"
    using that by (simp add: executeWithRecursion_def)
  show "executeWithRecursion (Inl e) fCom fSub = Inl e" if "IsNotFoundError e"
    using that NotImplemented_not_NotFound [of e] by (auto simp: executeWithRecursion_def)
  show "executeWithRecursion (Inl e1) (Some (Inr v)) fSub = Inr v" if "IsNotImplementedError e1"
    using that by (simp add: executeWithRecursion_def)
  show "executeWithRecursion (Inl e1) (Some (Inl e2)) fSub = Inl e2"
    if "IsNotImplementedError e1 \<and> \<not> IsNotImplementedError e2"
    using that by (simp add: executeWithRecursion_def)
  show "executeWithRecursion (Inl e1) (Some (Inl e2)) fSub = Inl e2"
    if "IsNotImplementedError e1 \<and> IsNotFoundError e2"
    using that NotImplemented_not_NotFound [of e2] by (auto simp: executeWithRecursion_def)
  show "executeWithRecursion (Inl e1) fCom (Some (Inr v)) = Inr v"
    if "IsNotImplementedError e1
          \<and> (fCom = None \<or> (\<exists>e2. fCom = Some (Inl e2) \<and> IsNotImplementedError e2))"
    using that by (auto simp: executeWithRecursion_def)
  show "executeWithRecursion (Inl e1) fCom fSub
              = (case fSub of
                   None \<Rightarrow> Inl (NotImplementedError ''no detection information available'')
                 | Some (Inr w) \<Rightarrow> Inr w
                 | Some (Inl e3) \<Rightarrow>
                     if IsNotFoundError e3
                     then Inl (NotFoundError
                                 ''failed to get information through any device class'')
                     else Inl e3)"
    if "IsNotImplementedError e1
          \<and> (fCom = None \<or> (\<exists>e2. fCom = Some (Inl e2) \<and> IsNotImplementedError e2))"
    using that NotImplemented_not_NotFound
    by (auto simp: executeWithRecursion_def split: option.splits sum.splits)
qed

text \<open>
  Witness of C1: the class step finds nothing while both later steps would succeed; the class
  step times out while both later steps would succeed; the class step is not implemented and
  the override step finds nothing, or times out, while the inherited step would succeed; and the
  inherited step is reached through a class step that is not implemented and no override.
\<close>

theorem executeWithRecursion_continues_on_NotImplemented_only_witness:
  "IsNotFoundError (NotFoundError ''no value'')
   \<and> \<not> IsNotImplementedError (OtherError ''timeout'')
   \<and> IsNotImplementedError (NotImplementedError ''not defined'')
   \<and> executeWithRecursion (Inl (NotFoundError ''no value'')) (Some (Inr (1::nat))) (Some (Inr 2))
       = Inl (NotFoundError ''no value'')
   \<and> executeWithRecursion (Inl (OtherError ''timeout'')) (Some (Inr (1::nat))) (Some (Inr 2))
       = Inl (OtherError ''timeout'')
   \<and> executeWithRecursion (Inl (NotImplementedError ''not defined''))
        (Some (Inl (NotFoundError ''no value''))) (Some (Inr (2::nat)))
       = Inl (NotFoundError ''no value'')
   \<and> executeWithRecursion (Inl (NotImplementedError ''not defined''))
        (Some (Inl (OtherError ''timeout''))) (Some (Inr (2::nat)))
       = Inl (OtherError ''timeout'')
   \<and> executeWithRecursion (Inl (NotImplementedError ''not defined'')) None (Some (Inr (2::nat)))
       = Inr 2"
proof -
  note a = executeWithRecursion_continues_on_NotImplemented_only
      [of 2 "Some (Inr (1::nat))" "Some (Inr 2)" "NotFoundError ''no value''"
          "NotImplementedError ''not defined''" "NotFoundError ''no value''"]
  note b = executeWithRecursion_continues_on_NotImplemented_only
      [of 2 "Some (Inr (1::nat))" "Some (Inr 2)" "OtherError ''timeout''"
          "NotImplementedError ''not defined''" "OtherError ''timeout''"]
  note c = executeWithRecursion_continues_on_NotImplemented_only
      [of 2 None "Some (Inr (2::nat))" "NotFoundError ''no value''"
          "NotImplementedError ''not defined''" "NotFoundError ''no value''"]
  have nf: "IsNotFoundError (NotFoundError ''no value'')" by simp
  have hard: "\<not> IsNotImplementedError (OtherError ''timeout'')" by simp
  have ni: "IsNotImplementedError (NotImplementedError ''not defined'')" by simp
  from a nf have 1: "executeWithRecursion (Inl (NotFoundError ''no value''))
      (Some (Inr (1::nat))) (Some (Inr 2)) = Inl (NotFoundError ''no value'')"
    by blast
  from b hard have 2: "executeWithRecursion (Inl (OtherError ''timeout''))
      (Some (Inr (1::nat))) (Some (Inr 2)) = Inl (OtherError ''timeout'')"
    by blast
  from a nf ni have 3: "executeWithRecursion (Inl (NotImplementedError ''not defined''))
        (Some (Inl (NotFoundError ''no value''))) (Some (Inr (2::nat)))
       = Inl (NotFoundError ''no value'')"
    by blast
  from b hard ni have 4: "executeWithRecursion (Inl (NotImplementedError ''not defined''))
        (Some (Inl (OtherError ''timeout''))) (Some (Inr (2::nat)))
       = Inl (OtherError ''timeout'')"
    by blast
  from c ni have 5: "executeWithRecursion (Inl (NotImplementedError ''not defined'')) None
       (Some (Inr (2::nat))) = Inr 2"
    by blast
  from nf hard ni 1 2 3 4 5 show ?thesis by (intro conjI)
qed

text \<open>
  Counterexample to C1 as stated: a class step that returns NotFound ends the resolution with
  that NotFound although the override step and the inherited step would both succeed; and a
  NotFound of the override step ends it although the inherited step would succeed.
\<close>

theorem executeWithRecursion_NotFound_stops_counterexample:
  "executeWithRecursion (Inl (NotFoundError ''no value'')) (Some (Inr (1::nat))) (Some (Inr 2))
     = Inl (NotFoundError ''no value'')
   \<and> executeWithRecursion (Inl (NotImplementedError ''not defined''))
        (Some (Inl (NotFoundError ''no value''))) (Some (Inr (2::nat)))
     = Inl (NotFoundError ''no value'')"
  by (simp add: executeWithRecursion_def)

text \<open>
  C2: an error of the class step that is neither NotImplemented nor NotFound is the result of
  the resolution, whatever the override and the inherited step are: they are not consulted.
  And when the class step is not implemented, the override step is absent or not implemented,
  and the inherited step is absent or not implemented, the result is a NotImplemented error.
\<close>

theorem executeWithRecursion_hard_failure_and_NotImplemented:
  fixes fCom fSub :: "(error + 'a) option"
  shows
    "(\<not> IsNotImplementedError e \<and> \<not> IsNotFoundError e \<longrightarrow>
        executeWithRecursion (Inl e) fCom fSub = Inl e)
     \<and> (IsNotImplementedError e1
          \<and> (fCom = None \<or> (\<exists>e2. fCom = Some (Inl e2) \<and> IsNotImplementedError e2))
          \<and> (fSub = None \<or> (\<exists>e3. fSub = Some (Inl e3) \<and> IsNotImplementedError e3)) \<longrightarrow>
          (\<exists>e'. executeWithRecursion (Inl e1) fCom fSub = Inl e' \<and> IsNotImplementedError e'))"
  by (auto simp: executeWithRecursion_def NotImplemented_not_NotFound)

text \<open>
  Witness of C2: a timeout of the class step with two later steps that would succeed, and a
  property that no step implements.
\<close>

theorem executeWithRecursion_hard_failure_and_NotImplemented_witness:
  "\<not> IsNotImplementedError (OtherError ''timeout'') \<and> \<not> IsNotFoundError (OtherError ''timeout'')
   \<and> executeWithRecursion (Inl (OtherError ''timeout'')) (Some (Inr (1::nat))) (Some (Inr 2))
       = Inl (OtherError ''timeout'')
   \<and> IsNotImplementedError (NotImplementedError ''a'')
   \<and> (\<exists>e'. executeWithRecursion (Inl (NotImplementedError ''a''))
               (Some (Inl (NotImplementedError ''b''))) (Some (Inl (NotImplementedError ''c'')))
             = (Inl e' :: error + nat) \<and> IsNotImplementedError e')"
  using
    executeWithRecursion_hard_failure_and_NotImplemented
      [of "OtherError ''timeout''" "Some (Inr (1::nat))" "Some (Inr 2)" "NotImplementedError ''a''"]
    executeWithRecursion_hard_failure_and_NotImplemented
      [where ?'a = nat, of "OtherError ''timeout''" "Some (Inl (NotImplementedError ''b''))"
         "Some (Inl (NotImplementedError ''c''))" "NotImplementedError ''a''"]
  by simp

section \<open>Properties of the getters\<close>

lemma empty_string_never_returned:
  "(case r of
      Inl err \<Rightarrow> Inl err
    | Inr s \<Rightarrow> if s = [] then Inl (NotFoundError ''empty string returned'') else Inr s)
   \<noteq> (Inr [] :: error + string)"
  by (auto split: sum.splits)

text \<open>
  C8: for the vendor, the model, the model series, the serial number and the OS version, a
  resolution chain that succeeds with the empty string makes the getter return the NotFound
  error ``empty string returned'', and no getter ever returns the empty string as a value.
\<close>

theorem getters_empty_string_is_NotFound:
  "(executeWithRecursion (getVendor (classFunctions (deviceClassCommunicator c)))
       (map_option getVendor (codeCommunicator c)) (map_option getVendor (sub c)) = Inr []
     \<longrightarrow> GetVendor c = Inl (NotFoundError ''empty string returned''))
   \<and> (executeWithRecursion (getModel (classFunctions (deviceClassCommunicator c)))
       (map_option getModel (codeCommunicator c)) (map_option getModel (sub c)) = Inr []
     \<longrightarrow> GetModel c = Inl (NotFoundError ''empty string returned''))
   \<and> (executeWithRecursion (getModelSeries (classFunctions (deviceClassCommunicator c)))
       (map_option getModelSeries (codeCommunicator c)) (map_option getModelSeries (sub c))
         = Inr []
     \<longrightarrow> GetModelSeries c = Inl (NotFoundError ''empty string returned''))
   \<and> (executeWithRecursion (getSerialNumber (classFunctions (deviceClassCommunicator c)))
       (map_option getSerialNumber (codeCommunicator c)) (map_option getSerialNumber (sub c))
         = Inr []
     \<longrightarrow> GetSerialNumber c = Inl (NotFoundError ''empty string returned''))
   \<and> (executeWithRecursion (getOSVersion (classFunctions (deviceClassCommunicator c)))
       (map_option getOSVersion (codeCommunicator c)) (map_option getOSVersion (sub c)) = Inr []
     \<longrightarrow> GetOSVersion c = Inl (NotFoundError ''empty string returned''))
   \<and> GetVendor c \<noteq> Inr [] \<and> GetModel c \<noteq> Inr [] \<and> GetModelSeries c \<noteq> Inr []
   \<and> GetSerialNumber c \<noteq> Inr [] \<and> GetOSVersion c \<noteq> Inr []"
  by (simp add: GetVendor_def GetModel_def GetModelSeries_def GetSerialNumber_def
      GetOSVersion_def empty_string_never_returned)

text \<open>
  Witness of C8: a head communicator without override and parent whose device class resolves
  each of the five properties to the empty string.
\<close>

theorem getters_empty_string_is_NotFound_witness:
  "GetVendor
     \<lparr>headDeviceClass = ''generic'', sub = None, codeCommunicator = None,
      deviceClassCommunicator =
        \<lparr>getName = ''generic'', hasInterfacesComponent = False,
         classFunctions =
           \<lparr>getVendor = Inr [], getModel = Inr [], getModelSeries = Inr [],
            getSerialNumber = Inr [], getOSVersion = Inr [],
            getInterfaces = (Inr [] :: error + Interface list)\<rparr>\<rparr>\<rparr>
     = Inl (NotFoundError ''empty string returned'')
   \<and> GetOSVersion
     \<lparr>headDeviceClass = ''generic'', sub = None, codeCommunicator = None,
      deviceClassCommunicator =
        \<lparr>getName = ''generic'', hasInterfacesComponent = False,
         classFunctions =
           \<lparr>getVendor = Inr [], getModel = Inr [], getModelSeries = Inr [],
            getSerialNumber = Inr [], getOSVersion = Inr [],
            getInterfaces = (Inr [] :: error + Interface list)\<rparr>\<rparr>\<rparr>
     = Inl (NotFoundError ''empty string returned'')"
  using getters_empty_string_is_NotFound
    [of "\<lparr>headDeviceClass = ''generic'', sub = None, codeCommunicator = None,
      deviceClassCommunicator =
        \<lparr>getName = ''generic'', hasInterfacesComponent = False,
         classFunctions =
           \<lparr>getVendor = Inr [], getModel = Inr [], getModelSeries = Inr [],
            getSerialNumber = Inr [], getOSVersion = Inr [],
            getInterfaces = (Inr [] :: error + Interface list)\<rparr>\<rparr>\<rparr>"]
  by (simp add: executeWithRecursion_def)

section \<open>Properties of the finishing pass over the interfaces\<close>

lemma sentinel_not_scaled: "(high :: 64 word) * 1000000 \<noteq> 4294967295"
proof
  assume "high * 1000000 = 4294967295"
  then have "even (high * 1000000) = even (4294967295 :: 64 word)" by simp
  then show False by simp
qed

lemma normalizeInterface_idem: "normalizeInterface (normalizeInterface x) = normalizeInterface x"
  by (auto simp: normalizeInterface_def sentinel_not_scaled split: option.splits)

lemma normalizeInterfaces_idem:
  "normalizeInterfaces (normalizeInterfaces xs) = normalizeInterfaces xs"
  by (simp add: normalizeInterfaces_def normalizeInterface_idem)

lemma normalizeInterface_rewrite:
  "IfSpeed x = Some 4294967295 \<Longrightarrow> IfHighSpeed x = Some high \<Longrightarrow>
     normalizeInterface x = x\<lparr>IfSpeed := Some (high * 1000000)\<rparr>"
  by (simp add: normalizeInterface_def)

lemma normalizeInterface_keep:
  "IfSpeed x \<noteq> Some 4294967295 \<or> IfHighSpeed x = None \<Longrightarrow> normalizeInterface x = x"
  by (auto simp: normalizeInterface_def split: option.splits)

lemma unat_scaled:
  "unat high * 1000000 < 2 ^ 64 \<Longrightarrow> unat ((high :: 64 word) * 1000000) = unat high * 1000000"
  by (simp add: unat_word_ariths)

text \<open>
  C9: the finishing pass keeps the length of the list; an interface whose speed is the sentinel
  \<open>2 ^ 32 - 1\<close> and whose high-capacity counter is set gets the speed counter times 1,000,000
  (the 64-bit product, which is the product of the numbers whenever that is below \<open>2 ^ 64\<close>), and
  every other interface is left as it is. \<open>GetInterfaces\<close> applies the pass to the result of the
  resolution at the head and returns the result of the resolution as it is at every
  communicator that is not the head; so a head that resolves through its parent returns the
  parent's interfaces with the pass applied once. A second pass would change nothing.
\<close>

theorem normalizeInterfaces_at_head_only:
  fixes c p :: "'i networkDeviceCommunicator" and interfaces :: "'i Interface_scheme list"
  shows
  "length (normalizeInterfaces interfaces) = length interfaces
   \<and> (i < length interfaces \<and> IfSpeed (interfaces ! i) = Some 4294967295
        \<and> IfHighSpeed (interfaces ! i) = Some high \<longrightarrow>
        normalizeInterfaces interfaces ! i = (interfaces ! i)\<lparr>IfSpeed := Some (high * 1000000)\<rparr>
        \<and> (unat high * 1000000 < 2 ^ 64 \<longrightarrow>
             map_option unat (IfSpeed (normalizeInterfaces interfaces ! i))
               = Some (unat high * 1000000)))
   \<and> (i < length interfaces
        \<and> (IfSpeed (interfaces ! i) \<noteq> Some 4294967295 \<or> IfHighSpeed (interfaces ! i) = None) \<longrightarrow>
        normalizeInterfaces interfaces ! i = interfaces ! i)
   \<and> normalizeInterfaces (normalizeInterfaces interfaces) = normalizeInterfaces interfaces
   \<and> (isHead c \<and> hasInterfacesComponent (deviceClassCommunicator c)
        \<and> executeWithRecursion (getInterfaces (classFunctions (deviceClassCommunicator c)))
            (map_option getInterfaces (codeCommunicator c))
            (map_option getInterfaces (sub c)) = Inr res \<longrightarrow>
        GetInterfaces c = Inr (normalizeInterfaces res))
   \<and> (\<not> isHead c \<longrightarrow>
        GetInterfaces c =
          executeWithRecursion (getInterfaces (classFunctions (deviceClassCommunicator c)))
            (map_option getInterfaces (codeCommunicator c))
            (map_option getInterfaces (sub c)))
   \<and> (isHead c \<and> hasInterfacesComponent (deviceClassCommunicator c)
        \<and> sub c = Some (asCommunicator p) \<and> \<not> isHead p
        \<and> getInterfaces (classFunctions (deviceClassCommunicator c)) = Inl e1
        \<and> IsNotImplementedError e1 \<and> codeCommunicator c = None
        \<and> executeWithRecursion (getInterfaces (classFunctions (deviceClassCommunicator p)))
            (map_option getInterfaces (codeCommunicator p))
            (map_option getInterfaces (sub p)) = Inr res \<longrightarrow>
        GetInterfaces p = Inr res \<and> GetInterfaces c = Inr (normalizeInterfaces res))"
proof (intro conjI impI)
  show "length (normalizeInterfaces interfaces) = length interfaces"
    by (simp add: normalizeInterfaces_def)
next
  assume "i < length interfaces \<and> IfSpeed (interfaces ! i) = Some 4294967295
    \<and> IfHighSpeed (interfaces ! i) = Some high"
  then show "normalizeInterfaces interfaces ! i
      = (interfaces ! i)\<lparr>IfSpeed := Some (high * 1000000)\<rparr>"
    by (simp add: normalizeInterfaces_def normalizeInterface_rewrite)
next
  assume "i < length interfaces \<and> IfSpeed (interfaces ! i) = Some 4294967295
    \<and> IfHighSpeed (interfaces ! i) = Some high"
    and "unat high * 1000000 < 2 ^ 64"
  then show "map_option unat (IfSpeed (normalizeInterfaces interfaces ! i))
      = Some (unat high * 1000000)"
    by (simp add: normalizeInterfaces_def normalizeInterface_rewrite unat_scaled)
next
  assume "i < length interfaces
    \<and> (IfSpeed (interfaces ! i) \<noteq> Some 4294967295 \<or> IfHighSpeed (interfaces ! i) = None)"
  then show "normalizeInterfaces interfaces ! i = interfaces ! i"
    by (simp add: normalizeInterfaces_def normalizeInterface_keep)
next
  show "normalizeInterfaces (normalizeInterfaces interfaces) = normalizeInterfaces interfaces"
    by (rule normalizeInterfaces_idem)
next
  assume "isHead c \<and> hasInterfacesComponent (deviceClassCommunicator c)
    \<and> executeWithRecursion (getInterfaces (classFunctions (deviceClassCommunicator c)))
        (map_option getInterfaces (codeCommunicator c))
        (map_option getInterfaces (sub c)) = Inr res"
  then show "GetInterfaces c = Inr (normalizeInterfaces res)"
    by (simp add: GetInterfaces_def)
next
  assume "\<not> isHead c"
  then show "GetInterfaces c =
      executeWithRecursion (getInterfaces (classFunctions (deviceClassCommunicator c)))
        (map_option getInterfaces (codeCommunicator c))
        (map_option getInterfaces (sub c))"
    by (simp add: GetInterfaces_def split: sum.splits)
next
  assume a: "isHead c \<and> hasInterfacesComponent (deviceClassCommunicator c)
    \<and> sub c = Some (asCommunicator p) \<and> \<not> isHead p
    \<and> getInterfaces (classFunctions (deviceClassCommunicator c)) = Inl e1
    \<and> IsNotImplementedError e1 \<and> codeCommunicator c = None
    \<and> executeWithRecursion (getInterfaces (classFunctions (deviceClassCommunicator p)))
        (map_option getInterfaces (codeCommunicator p))
        (map_option getInterfaces (sub p)) = Inr res"
  then show p: "GetInterfaces p = Inr res"
    by (simp add: GetInterfaces_def split: sum.splits)
  from a p show "GetInterfaces c = Inr (normalizeInterfaces res)"
    by (simp add: GetInterfaces_def asCommunicator_def executeWithRecursion_def)
qed

text \<open>
  Witness of C9: a parent that is not the head reports an interface with the sentinel speed
  and the high-capacity counter 10; the head, which resolves through the parent, returns it with
  the speed 10,000,000.
\<close>

theorem normalizeInterfaces_at_head_only_witness:
  "normalizeInterfaces
     [\<lparr>IfIndex = Some 1, IfSpeed = Some 4294967295, IfHighSpeed = Some 10, SAP = None\<rparr>]
     = [\<lparr>IfIndex = Some 1, IfSpeed = Some 10000000, IfHighSpeed = Some 10, SAP = None\<rparr>]
   \<and> GetInterfaces
       \<lparr>headDeviceClass = ''head'',
        sub = Some (asCommunicator
          \<lparr>headDeviceClass = ''head'', sub = None, codeCommunicator = None,
           deviceClassCommunicator =
             \<lparr>getName = ''parent'', hasInterfacesComponent = True,
              classFunctions =
                \<lparr>getVendor = Inr ''v'', getModel = Inr ''m'', getModelSeries = Inr ''s'',
                 getSerialNumber = Inr ''n'', getOSVersion = Inr ''o'',
                 getInterfaces = Inr [\<lparr>IfIndex = Some 1, IfSpeed = Some 4294967295,
                                       IfHighSpeed = Some 10, SAP = None\<rparr>]\<rparr>\<rparr>\<rparr>),
        codeCommunicator = None,
        deviceClassCommunicator =
          \<lparr>getName = ''head'', hasInterfacesComponent = True,
           classFunctions =
             \<lparr>getVendor = Inr ''v'', getModel = Inr ''m'', getModelSeries = Inr ''s'',
              getSerialNumber = Inr ''n'', getOSVersion = Inr ''o'',
              getInterfaces = Inl (NotImplementedError ''not defined'')\<rparr>\<rparr>\<rparr>
     = Inr [\<lparr>IfIndex = Some 1, IfSpeed = Some 10000000, IfHighSpeed = Some 10, SAP = None\<rparr>]"
proof -
  let ?x = "\<lparr>IfIndex = Some 1, IfSpeed = Some 4294967295, IfHighSpeed = Some 10, SAP = None\<rparr>"
  let ?p = "\<lparr>headDeviceClass = ''head'', sub = None, codeCommunicator = None,
           deviceClassCommunicator =
             \<lparr>getName = ''parent'', hasInterfacesComponent = True,
              classFunctions =
                \<lparr>getVendor = Inr ''v'', getModel = Inr ''m'', getModelSeries = Inr ''s'',
                 getSerialNumber = Inr ''n'', getOSVersion = Inr ''o'',
                 getInterfaces = Inr [?x]\<rparr>\<rparr>\<rparr>"
  let ?c = "\<lparr>headDeviceClass = ''head'',
        sub = Some (asCommunicator ?p),
        codeCommunicator = None,
        deviceClassCommunicator =
          \<lparr>getName = ''head'', hasInterfacesComponent = True,
           classFunctions =
             \<lparr>getVendor = Inr ''v'', getModel = Inr ''m'', getModelSeries = Inr ''s'',
              getSerialNumber = Inr ''n'', getOSVersion = Inr ''o'',
              getInterfaces = Inl (NotImplementedError ''not defined'')\<rparr>\<rparr>\<rparr>"
  have len: "length (normalizeInterfaces [?x]) = 1"
    using normalizeInterfaces_at_head_only [of "[?x]"] by simp
  have el: "normalizeInterfaces [?x] ! 0 = ?x\<lparr>IfSpeed := Some (10 * 1000000)\<rparr>"
    using normalizeInterfaces_at_head_only [of "[?x]" 0 10] by simp
  have n: "normalizeInterfaces [?x] = [?x\<lparr>IfSpeed := Some (10 * 1000000)\<rparr>]"
    using len el by (cases "normalizeInterfaces [?x]") auto
  have g: "GetInterfaces ?c = Inr (normalizeInterfaces [?x])"
    using normalizeInterfaces_at_head_only
      [of "[?x]" 0 10 ?c "[?x]" ?p "NotImplementedError ''not defined''"]
    by (simp add: isHead_def GetDeviceClass_def executeWithRecursion_def)
  show ?thesis using n g by simp
qed

section \<open>Properties of the leaf reader\<close>

lemma keys_update_mono: "fst ` set al \<subseteq> fst ` set (AList.update k v al)"
  by (simp add: dom_update) blast

lemma readResponses_Cons_cases:
  obtains
    (getfail) e where
      "GetValueBySNMPGetConfiguration n a (SNMPGetConfiguration d) = Inl e"
      "readResponses n d (a # rs) result
         = Inl (Wrap e ''couldn't get value from response response'')"
  | (skip)
      "GetValueBySNMPGetConfiguration n a (SNMPGetConfiguration d) = Inr []"
      "readResponses n d (a # rs) result = readResponses n d rs result"
  | (opfail) res e where
      "GetValueBySNMPGetConfiguration n a (SNMPGetConfiguration d) = Inr res" "res \<noteq> []"
      "applyOperators n (operators d) res = Inl e"
      "readResponses n d (a # rs) result
         = Inl (Wrap e (''response couldn't be normalized (oid: '' @ GetOID n a
                        @ '', response: '' @ res @ '')''))"
  | (indexfail) res v e where
      "GetValueBySNMPGetConfiguration n a (SNMPGetConfiguration d) = Inr res" "res \<noteq> []"
      "applyOperators n (operators d) res = Inr v"
      "Atoi (last (Split (GetOID n a) CHR ''.'')) = Inl e"
      "readResponses n d (a # rs) result = Inl (Wrap e ''index isn't an integer'')"
  | (store) res v index where
      "GetValueBySNMPGetConfiguration n a (SNMPGetConfiguration d) = Inr res" "res \<noteq> []"
      "applyOperators n (operators d) res = Inr v"
      "Atoi (last (Split (GetOID n a) CHR ''.'')) = Inr index"
      "readResponses n d (a # rs) result = readResponses n d rs (AList.update index v result)"
proof (cases "GetValueBySNMPGetConfiguration n a (SNMPGetConfiguration d)")
  case (Inl e)
  then show ?thesis using getfail by simp
next
  case res: (Inr res)
  show ?thesis
  proof (cases "res = []")
    case True
    then show ?thesis using res skip by simp
  next
    case ne: False
    show ?thesis
    proof (cases "applyOperators n (operators d) res")
      case (Inl e)
      then show ?thesis using res ne opfail by simp
    next
      case v: (Inr v)
      show ?thesis
      proof (cases "Atoi (last (Split (GetOID n a) CHR ''.''))")
        case (Inl e)
        then show ?thesis using res ne v indexfail by simp
      next
        case (Inr index)
        then show ?thesis using res ne v store by simp
      qed
    qed
  qed
qed

lemma readResponses_keys_mono:
  "readResponses n d rs result = Inr result' \<Longrightarrow> fst ` set result \<subseteq> fst ` set result'"
proof (induction rs arbitrary: result)
  case Nil
  then show ?case by simp
next
  case (Cons a rs)
  show ?case
  proof (cases rule: readResponses_Cons_cases [of n a d rs result])
    case (getfail e)
    with Cons.prems show ?thesis by simp
  next
    case skip
    with Cons.prems Cons.IH show ?thesis by simp
  next
    case (opfail res e)
    with Cons.prems show ?thesis by simp
  next
    case (indexfail res v e)
    with Cons.prems show ?thesis by simp
  next
    case (store res v index)
    with Cons.prems have "readResponses n d rs (AList.update index v result) = Inr result'"
      by simp
    from Cons.IH [OF this] keys_update_mono [of result index v] show ?thesis by blast
  qed
qed

lemma readResponses_fail:
  "r \<in> set rs \<Longrightarrow> GetValueBySNMPGetConfiguration n r (SNMPGetConfiguration d) = Inr res \<Longrightarrow>
   res \<noteq> [] \<Longrightarrow>
   isl (applyOperators n (operators d) res) \<or> isl (Atoi (last (Split (GetOID n r) CHR ''.''))) \<Longrightarrow>
   isl (readResponses n d rs result)"
proof (induction rs arbitrary: result)
  case Nil
  then show ?case by simp
next
  case (Cons a rs)
  show ?case
  proof (cases rule: readResponses_Cons_cases [of n a d rs result])
    case (getfail e)
    then show ?thesis by simp
  next
    case skip
    with Cons.prems have "r \<in> set rs" by auto
    with skip Cons show ?thesis by simp
  next
    case (opfail res e)
    then show ?thesis by simp
  next
    case (indexfail res v e)
    then show ?thesis by simp
  next
    case (store res' v index)
    with Cons.prems have "r \<in> set rs" by auto
    with store Cons show ?thesis by simp
  qed
qed

lemma readResponses_ok:
  "readResponses n d rs result = Inr result' \<Longrightarrow> r \<in> set rs \<Longrightarrow>
   \<exists>res. GetValueBySNMPGetConfiguration n r (SNMPGetConfiguration d) = Inr res
     \<and> (res \<noteq> [] \<longrightarrow>
          (\<exists>v index. applyOperators n (operators d) res = Inr v
             \<and> Atoi (last (Split (GetOID n r) CHR ''.'')) = Inr index
             \<and> index \<in> fst ` set result'))"
proof (induction rs arbitrary: result)
  case Nil
  then show ?case by simp
next
  case (Cons a rs)
  show ?case
  proof (cases rule: readResponses_Cons_cases [of n a d rs result])
    case (getfail e)
    with Cons.prems show ?thesis by simp
  next
    case skip
    with Cons.prems have "readResponses n d rs result = Inr result'" by simp
    from Cons.IH [OF this] skip(1) Cons.prems(2) show ?thesis by auto
  next
    case (opfail res e)
    with Cons.prems show ?thesis by simp
  next
    case (indexfail res v e)
    with Cons.prems show ?thesis by simp
  next
    case (store res v index)
    with Cons.prems have rest: "readResponses n d rs (AList.update index v result) = Inr result'"
      by simp
    have "index \<in> fst ` set (AList.update index v result)" by (simp add: dom_update)
    then have "index \<in> fst ` set result'" using readResponses_keys_mono [OF rest] by blast
    with Cons.IH [OF rest] store(1-4) Cons.prems(2) show ?thesis by auto
  qed
qed

lemma readResponses_error:
  "readResponses n d rs result = Inl err \<Longrightarrow>
   \<exists>r\<in>set rs.
     (\<exists>e. GetValueBySNMPGetConfiguration n r (SNMPGetConfiguration d) = Inl e
        \<and> err = Wrap e ''couldn't get value from response response'')
     \<or> (\<exists>res. GetValueBySNMPGetConfiguration n r (SNMPGetConfiguration d) = Inr res \<and> res \<noteq> []
          \<and> ((\<exists>e. applyOperators n (operators d) res = Inl e
                \<and> err = Wrap e (''response couldn't be normalized (oid: '' @ GetOID n r
                                @ '', response: '' @ res @ '')''))
              \<or> (\<exists>v e. applyOperators n (operators d) res = Inr v
                    \<and> Atoi (last (Split (GetOID n r) CHR ''.'')) = Inl e
                    \<and> err = Wrap e ''index isn't an integer'')))"
proof (induction rs arbitrary: result)
  case Nil
  then show ?case by simp
next
  case (Cons a rs)
  show ?case
  proof (cases rule: readResponses_Cons_cases [of n a d rs result])
    case (getfail e)
    with Cons.prems have "err = Wrap e ''couldn't get value from response response''" by simp
    with getfail(1) show ?thesis by (intro bexI [of _ a]) auto
  next
    case skip
    with Cons.prems have "readResponses n d rs result = Inl err" by simp
    from Cons.IH [OF this] show ?thesis by auto
  next
    case (opfail res e)
    with Cons.prems have "err = Wrap e (''response couldn't be normalized (oid: '' @ GetOID n a
                        @ '', response: '' @ res @ '')'')" by simp
    with opfail(1-3) show ?thesis by (intro bexI [of _ a]) auto
  next
    case (indexfail res v e)
    with Cons.prems have "err = Wrap e ''index isn't an integer''" by simp
    with indexfail(1-4) show ?thesis by (intro bexI [of _ a]) auto
  next
    case (store res v index)
    with Cons.prems have "readResponses n d rs (AList.update index v result) = Inl err" by simp
    from Cons.IH [OF this] show ?thesis by auto
  qed
qed


text \<open>
  C3, as the source has it. Let the walk of the leaf succeed with the responses \<open>rs\<close>. A
  response whose value is not empty and whose operator pipeline fails, or whose trailing path
  component is no integer, makes the whole read fail; a failed read returns the wrapped error
  of one of its responses (no partial result); and after a successful read every response had a
  value, and every response with a value that is not empty was normalized and has its index
  among the keys of the result. A response whose value is the empty string is passed over: it
  is neither normalized nor is its index parsed.
\<close>

theorem deviceClassOID_readOID_nonempty_rows:
  assumes "SNMPWalk n = Some walk" and "walk (OID d) = Inr rs"
  shows
    "(r \<in> set rs \<and> GetValueBySNMPGetConfiguration n r (SNMPGetConfiguration d) = Inr res
        \<and> res \<noteq> []
        \<and> (isl (applyOperators n (operators d) res)
             \<or> isl (Atoi (last (Split (GetOID n r) CHR ''.'')))) \<longrightarrow>
      isl (deviceClassOID_readOID n d))
     \<and> (deviceClassOID_readOID n d = Inl err \<longrightarrow>
          (\<exists>r\<in>set rs.
             (\<exists>e. GetValueBySNMPGetConfiguration n r (SNMPGetConfiguration d) = Inl e
                \<and> err = Wrap e ''couldn't get value from response response'')
             \<or> (\<exists>res. GetValueBySNMPGetConfiguration n r (SNMPGetConfiguration d) = Inr res
                  \<and> res \<noteq> []
                  \<and> ((\<exists>e. applyOperators n (operators d) res = Inl e
                        \<and> err = Wrap e (''response couldn't be normalized (oid: ''
                                         @ GetOID n r @ '', response: '' @ res @ '')''))
                      \<or> (\<exists>v e. applyOperators n (operators d) res = Inr v
                            \<and> Atoi (last (Split (GetOID n r) CHR ''.'')) = Inl e
                            \<and> err = Wrap e ''index isn't an integer'')))))
     \<and> (deviceClassOID_readOID n d = Inr result \<and> r \<in> set rs \<longrightarrow>
          (\<exists>res. GetValueBySNMPGetConfiguration n r (SNMPGetConfiguration d) = Inr res
             \<and> (res \<noteq> [] \<longrightarrow>
                  (\<exists>v index. applyOperators n (operators d) res = Inr v
                     \<and> Atoi (last (Split (GetOID n r) CHR ''.'')) = Inr index
                     \<and> index \<in> fst ` set result))))
     \<and> (GetValueBySNMPGetConfiguration n r (SNMPGetConfiguration d) = Inr [] \<longrightarrow>
          readResponses n d (r # rest) acc = readResponses n d rest acc)"
proof -
  have eq: "deviceClassOID_readOID n d = readResponses n d rs []"
    using assms by (simp add: deviceClassOID_readOID_def)
  show ?thesis
    unfolding eq
  proof (intro conjI impI)
    assume "r \<in> set rs \<and> GetValueBySNMPGetConfiguration n r (SNMPGetConfiguration d) = Inr res
        \<and> res \<noteq> []
        \<and> (isl (applyOperators n (operators d) res)
             \<or> isl (Atoi (last (Split (GetOID n r) CHR ''.''))))"
    then show "isl (readResponses n d rs [])"
      using readResponses_fail [of r rs n d res "[]"] by blast
  next
    assume "readResponses n d rs [] = Inl err"
    then show "\<exists>r\<in>set rs.
             (\<exists>e. GetValueBySNMPGetConfiguration n r (SNMPGetConfiguration d) = Inl e
                \<and> err = Wrap e ''couldn't get value from response response'')
             \<or> (\<exists>res. GetValueBySNMPGetConfiguration n r (SNMPGetConfiguration d) = Inr res
                  \<and> res \<noteq> []
                  \<and> ((\<exists>e. applyOperators n (operators d) res = Inl e
                        \<and> err = Wrap e (''response couldn't be normalized (oid: ''
                                         @ GetOID n r @ '', response: '' @ res @ '')''))
                      \<or> (\<exists>v e. applyOperators n (operators d) res = Inr v
                            \<and> Atoi (last (Split (GetOID n r) CHR ''.'')) = Inl e
                            \<and> err = Wrap e ''index isn't an integer'')))"
      by (rule readResponses_error)
  next
    assume "readResponses n d rs [] = Inr result \<and> r \<in> set rs"
    then show "\<exists>res. GetValueBySNMPGetConfiguration n r (SNMPGetConfiguration d) = Inr res
             \<and> (res \<noteq> [] \<longrightarrow>
                  (\<exists>v index. applyOperators n (operators d) res = Inr v
                     \<and> Atoi (last (Split (GetOID n r) CHR ''.'')) = Inr index
                     \<and> index \<in> fst ` set result))"
      using readResponses_ok [of n d rs "[]" result r] by blast
  next
    assume "GetValueBySNMPGetConfiguration n r (SNMPGetConfiguration d) = Inr []"
    then show "readResponses n d (r # rest) acc = readResponses n d rest acc"
      by simp
  qed
qed

text \<open>
  Witness of C3: a walk with the rows \<open>7\<close> and \<open>x\<close>, both with a value, fails; a walk with the
  row \<open>7\<close> alone succeeds and has the index 7.
\<close>

theorem deviceClassOID_readOID_nonempty_rows_witness:
  "isl (deviceClassOID_readOID
     \<lparr>SNMPWalk = Some (\<lambda>oid. Inr [(''.1.3.6.1.2.1.2.2.1.2.7'', ''eth0''),
                                  (''.1.3.6.1.2.1.2.2.1.2.x'', ''eth1'')]),
      GetOID = fst, GetValueBySNMPGetConfiguration = (\<lambda>r c. Inr (snd r)),
      applyOperators = (\<lambda>ops s. Inr s)\<rparr>
     \<lparr>OID = ''.1.3.6.1.2.1.2.2.1.2'', SNMPGetConfiguration = (), operators = ()\<rparr>)
   \<and> (\<exists>result. deviceClassOID_readOID
     \<lparr>SNMPWalk = Some (\<lambda>oid. Inr [(''.1.3.6.1.2.1.2.2.1.2.7'', ''eth0'')]),
      GetOID = fst, GetValueBySNMPGetConfiguration = (\<lambda>r c. Inr (snd r)),
      applyOperators = (\<lambda>ops s. Inr s)\<rparr>
     \<lparr>OID = ''.1.3.6.1.2.1.2.2.1.2'', SNMPGetConfiguration = (), operators = ()\<rparr> = Inr result
      \<and> 7 \<in> fst ` set result)"
proof -
  let ?d = "\<lparr>OID = ''.1.3.6.1.2.1.2.2.1.2'', SNMPGetConfiguration = (), operators = ()\<rparr>"
  let ?rs = "[(''.1.3.6.1.2.1.2.2.1.2.7'', ''eth0''), (''.1.3.6.1.2.1.2.2.1.2.x'', ''eth1'')]"
  let ?n = "\<lparr>SNMPWalk = Some (\<lambda>oid. Inr ?rs),
      GetOID = fst, GetValueBySNMPGetConfiguration = (\<lambda>r c. Inr (snd r)),
      applyOperators = (\<lambda>ops s. Inr s)\<rparr>"
  let ?rs2 = "[(''.1.3.6.1.2.1.2.2.1.2.7'', ''eth0'')]"
  let ?n2 = "\<lparr>SNMPWalk = Some (\<lambda>oid. Inr ?rs2),
      GetOID = fst, GetValueBySNMPGetConfiguration = (\<lambda>r c. Inr (snd r)),
      applyOperators = (\<lambda>ops s. Inr s)\<rparr>"
  have a: "isl (deviceClassOID_readOID ?n ?d)"
    using deviceClassOID_readOID_nonempty_rows
      [of ?n "\<lambda>oid. Inr ?rs" ?d ?rs "(''.1.3.6.1.2.1.2.2.1.2.x'', ''eth1'')" "''eth1''"]
    by (simp add: Atoi_def isDigit_def)
  obtain result where r: "deviceClassOID_readOID ?n2 ?d = Inr result"
    by (simp add: deviceClassOID_readOID_def Atoi_def isDigit_def digitsValue_def)
  have "7 \<in> fst ` set result"
    using deviceClassOID_readOID_nonempty_rows
      [of ?n2 "\<lambda>oid. Inr ?rs2" ?d ?rs2 "(''.1.3.6.1.2.1.2.2.1.2.7'', ''eth0'')" _ _ result] r
    by (simp add: Atoi_def isDigit_def digitsValue_def)
  with a r show ?thesis by blast
qed

text \<open>
  Counterexample to C3 as stated: the only response of the walk has a trailing path component
  \<open>x\<close>, which is no integer, and the empty string as its value; the read succeeds with no rows.
\<close>

theorem deviceClassOID_readOID_empty_value_counterexample:
  "deviceClassOID_readOID
     \<lparr>SNMPWalk = Some (\<lambda>oid. Inr [(''.1.3.6.1.2.1.31.1.1.1.18.x'', [])]),
      GetOID = fst, GetValueBySNMPGetConfiguration = (\<lambda>r c. Inr (snd r)),
      applyOperators = (\<lambda>ops s. Inr s)\<rparr>
     \<lparr>OID = ''.1.3.6.1.2.1.31.1.1.1.18'', SNMPGetConfiguration = (), operators = ()\<rparr>
     = (Inr [] :: error + (int \<times> string) list)
   \<and> isl (Atoi (last (Split ''.1.3.6.1.2.1.31.1.1.1.18.x'' CHR ''.'')))"
  by (simp add: deviceClassOID_readOID_def Atoi_def isDigit_def)

section \<open>Properties of the merge\<close>

lemma map_of_copy:
  "distinct (map fst d) \<Longrightarrow>
   map_of (fold (\<lambda>kv new. AList.update (fst kv) (snd kv) new) d acc) k
     = (case map_of d k of Some v \<Rightarrow> Some v | None \<Rightarrow> map_of acc k)"
proof (induction d arbitrary: acc)
  case Nil
  then show ?case by simp
next
  case (Cons x d)
  then have "fst x \<notin> fst ` set d" by simp
  then have "k = fst x \<Longrightarrow> map_of d k = None" by (simp add: map_of_eq_None_iff)
  with Cons show ?case
    by (cases x) (auto simp: update_conv' split: option.splits)
qed

lemma distinct_copy:
  "distinct (map fst acc) \<Longrightarrow>
   distinct (map fst (fold (\<lambda>kv new. AList.update (fst kv) (snd kv) new) d acc))"
  by (induction d arbitrary: acc) (simp_all add: distinct_update)

lemma distinct_mergeOverwrite:
  "distinct (map fst new) \<Longrightarrow> distinct (map fst (mergeOverwrite new ov))"
proof (induction ov arbitrary: new)
  case Nil
  then show ?case by simp
next
  case (Cons kv ov)
  then show ?case
    by (auto simp: distinct_update split: option.splits oidReader.splits)
qed

lemma map_of_mergeOverwrite:
  "distinct (map fst ov) \<Longrightarrow>
   map_of (mergeOverwrite new ov) k
     = (case map_of ov k of
          None \<Rightarrow> map_of new k
        | Some v \<Rightarrow>
            (case (map_of new k, v) of
               (Some (DeviceClassOIDs oidsOld), DeviceClassOIDs oidsOverwrite) \<Rightarrow>
                 Some (DeviceClassOIDs (merge oidsOld oidsOverwrite))
             | _ \<Rightarrow> Some v))"
proof (induction ov arbitrary: new)
  case Nil
  then show ?case by simp
next
  case (Cons kv ov)
  obtain k' v' where kv: "kv = (k', v')" by (cases kv)
  from Cons.prems kv have nk: "map_of ov k' = None" and dist: "distinct (map fst ov)"
    by (simp_all add: map_of_eq_None_iff)
  show ?case
  proof (cases "k = k'")
    case True
    with kv nk Cons.IH [OF dist] show ?thesis
      by (simp add: update_conv' split: option.splits oidReader.splits)
  next
    case False
    with kv Cons.IH [OF dist] show ?thesis
      by (simp add: update_conv' split: option.splits oidReader.splits)
  qed
qed

lemma map_of_merge:
  assumes "distinct (map fst d)" and "distinct (map fst overwrite)"
  shows "map_of (merge d overwrite) k
     = (case map_of overwrite k of
          None \<Rightarrow> map_of d k
        | Some v \<Rightarrow>
            (case (map_of d k, v) of
               (Some (DeviceClassOIDs oidsOld), DeviceClassOIDs oidsOverwrite) \<Rightarrow>
                 Some (DeviceClassOIDs (merge oidsOld oidsOverwrite))
             | _ \<Rightarrow> Some v))"
  using assms
  by (subst merge.simps)
     (simp add: map_of_mergeOverwrite map_of_copy del: merge.simps
        split: option.splits oidReader.splits)

text \<open>
  C7: for maps with distinct keys (as every Go map has), the merged map holds at a key where
  both maps hold subtrees the merge of the two subtrees; at any other key that the overlay has,
  the value of the overlay (a leaf of the overlay replaces a subtree or a leaf of the base, and any
  value of the overlay replaces a leaf of the base or fills a key the base lacks); and at a key that
  the overlay lacks what the base has there. The merged map has distinct keys again.
\<close>

theorem merge_overlay_wins_subtrees_recurse:
  assumes "distinct (map fst d)" and "distinct (map fst overwrite)"
  shows
    "(map_of d k = Some (DeviceClassOIDs oidsOld)
        \<and> map_of overwrite k = Some (DeviceClassOIDs oidsOverwrite) \<longrightarrow>
      map_of (merge d overwrite) k = Some (DeviceClassOIDs (merge oidsOld oidsOverwrite)))
     \<and> (map_of overwrite k = Some (DeviceClassOID leaf) \<longrightarrow>
          map_of (merge d overwrite) k = Some (DeviceClassOID leaf))
     \<and> (map_of d k = Some (DeviceClassOID leaf) \<and> map_of overwrite k = Some v \<longrightarrow>
          map_of (merge d overwrite) k = Some v)
     \<and> (map_of d k = None \<and> map_of overwrite k = Some v \<longrightarrow>
          map_of (merge d overwrite) k = Some v)
     \<and> (map_of overwrite k = None \<longrightarrow> map_of (merge d overwrite) k = map_of d k)
     \<and> distinct (map fst (merge d overwrite))"
proof -
  note m = map_of_merge [OF assms, of k]
  have dist: "distinct (map fst (merge d overwrite))"
    by (subst merge.simps) (simp add: distinct_mergeOverwrite distinct_copy del: merge.simps)
  show ?thesis
  proof (intro conjI impI)
    assume "map_of d k = Some (DeviceClassOIDs oidsOld)
        \<and> map_of overwrite k = Some (DeviceClassOIDs oidsOverwrite)"
    then show "map_of (merge d overwrite) k
        = Some (DeviceClassOIDs (merge oidsOld oidsOverwrite))"
      using m by (simp del: merge.simps)
  next
    assume "map_of overwrite k = Some (DeviceClassOID leaf)"
    then show "map_of (merge d overwrite) k = Some (DeviceClassOID leaf)"
      using m by (simp del: merge.simps split: option.splits oidReader.splits)
  next
    assume "map_of d k = Some (DeviceClassOID leaf) \<and> map_of overwrite k = Some v"
    then show "map_of (merge d overwrite) k = Some v"
      using m by (simp del: merge.simps)
  next
    assume "map_of d k = None \<and> map_of overwrite k = Some v"
    then show "map_of (merge d overwrite) k = Some v"
      using m by (simp del: merge.simps)
  next
    assume "map_of overwrite k = None"
    then show "map_of (merge d overwrite) k = map_of d k"
      using m by (simp del: merge.simps)
  next
    show "distinct (map fst (merge d overwrite))" by (rule dist)
  qed
qed

text \<open>
  Witness of C7: the base has a leaf and two subtrees; the overlay has a subtree for the first
  subtree, a leaf for the second, and a new leaf.
\<close>

theorem merge_overlay_wins_subtrees_recurse_witness:
  "map_of (merge
      [(''descr'', DeviceClassOID \<lparr>OID = ''.1.1'', SNMPGetConfiguration = (), operators = ()\<rparr>),
       (''cpu'', DeviceClassOIDs
          [(''load'', DeviceClassOID \<lparr>OID = ''.1.2'', SNMPGetConfiguration = (), operators = ()\<rparr>)]),
       (''disk'', DeviceClassOIDs
          [(''size'', DeviceClassOID \<lparr>OID = ''.1.3'', SNMPGetConfiguration = (), operators = ()\<rparr>)])]
      [(''cpu'', DeviceClassOIDs
          [(''temp'', DeviceClassOID \<lparr>OID = ''.2.2'', SNMPGetConfiguration = (), operators = ()\<rparr>)]),
       (''disk'', DeviceClassOID \<lparr>OID = ''.2.3'', SNMPGetConfiguration = (), operators = ()\<rparr>),
       (''fans'', DeviceClassOID \<lparr>OID = ''.2.4'', SNMPGetConfiguration = (), operators = ()\<rparr>)])
     ''cpu''
   = Some (DeviceClassOIDs (merge
      [(''load'', DeviceClassOID \<lparr>OID = ''.1.2'', SNMPGetConfiguration = (), operators = ()\<rparr>)]
      [(''temp'', DeviceClassOID \<lparr>OID = ''.2.2'', SNMPGetConfiguration = (), operators = ()\<rparr>)]))
   \<and> map_of (merge
      [(''descr'', DeviceClassOID \<lparr>OID = ''.1.1'', SNMPGetConfiguration = (), operators = ()\<rparr>),
       (''cpu'', DeviceClassOIDs
          [(''load'', DeviceClassOID \<lparr>OID = ''.1.2'', SNMPGetConfiguration = (), operators = ()\<rparr>)]),
       (''disk'', DeviceClassOIDs
          [(''size'', DeviceClassOID \<lparr>OID = ''.1.3'', SNMPGetConfiguration = (), operators = ()\<rparr>)])]
      [(''cpu'', DeviceClassOIDs
          [(''temp'', DeviceClassOID \<lparr>OID = ''.2.2'', SNMPGetConfiguration = (), operators = ()\<rparr>)]),
       (''disk'', DeviceClassOID \<lparr>OID = ''.2.3'', SNMPGetConfiguration = (), operators = ()\<rparr>),
       (''fans'', DeviceClassOID \<lparr>OID = ''.2.4'', SNMPGetConfiguration = (), operators = ()\<rparr>)])
     ''disk''
   = Some (DeviceClassOID \<lparr>OID = ''.2.3'', SNMPGetConfiguration = (), operators = ()\<rparr>)
   \<and> map_of (merge
      [(''descr'', DeviceClassOID \<lparr>OID = ''.1.1'', SNMPGetConfiguration = (), operators = ()\<rparr>),
       (''cpu'', DeviceClassOIDs
          [(''load'', DeviceClassOID \<lparr>OID = ''.1.2'', SNMPGetConfiguration = (), operators = ()\<rparr>)]),
       (''disk'', DeviceClassOIDs
          [(''size'', DeviceClassOID \<lparr>OID = ''.1.3'', SNMPGetConfiguration = (), operators = ()\<rparr>)])]
      [(''cpu'', DeviceClassOIDs
          [(''temp'', DeviceClassOID \<lparr>OID = ''.2.2'', SNMPGetConfiguration = (), operators = ()\<rparr>)]),
       (''disk'', DeviceClassOID \<lparr>OID = ''.2.3'', SNMPGetConfiguration = (), operators = ()\<rparr>),
       (''fans'', DeviceClassOID \<lparr>OID = ''.2.4'', SNMPGetConfiguration = (), operators = ()\<rparr>)])
     ''descr''
   = Some (DeviceClassOID \<lparr>OID = ''.1.1'', SNMPGetConfiguration = (), operators = ()\<rparr>)"
proof -
  let ?d = "[(''descr'', DeviceClassOID \<lparr>OID = ''.1.1'', SNMPGetConfiguration = (), operators = ()\<rparr>),
       (''cpu'', DeviceClassOIDs
          [(''load'', DeviceClassOID \<lparr>OID = ''.1.2'', SNMPGetConfiguration = (), operators = ()\<rparr>)]),
       (''disk'', DeviceClassOIDs
          [(''size'', DeviceClassOID \<lparr>OID = ''.1.3'', SNMPGetConfiguration = (), operators = ()\<rparr>)])]"
  let ?o = "[(''cpu'', DeviceClassOIDs
          [(''temp'', DeviceClassOID \<lparr>OID = ''.2.2'', SNMPGetConfiguration = (), operators = ()\<rparr>)]),
       (''disk'', DeviceClassOID \<lparr>OID = ''.2.3'', SNMPGetConfiguration = (), operators = ()\<rparr>),
       (''fans'', DeviceClassOID \<lparr>OID = ''.2.4'', SNMPGetConfiguration = (), operators = ()\<rparr>)]"
  have d: "distinct (map fst ?d)" and o: "distinct (map fst ?o)" by simp_all
  note t = merge_overlay_wins_subtrees_recurse [OF d o]
  have "map_of (merge ?d ?o) ''cpu'' = Some (DeviceClassOIDs (merge
      [(''load'', DeviceClassOID \<lparr>OID = ''.1.2'', SNMPGetConfiguration = (), operators = ()\<rparr>)]
      [(''temp'', DeviceClassOID \<lparr>OID = ''.2.2'', SNMPGetConfiguration = (), operators = ()\<rparr>)]))"
    using t [of "''cpu''"] by (simp del: merge.simps)
  moreover have "map_of (merge ?d ?o) ''disk''
      = Some (DeviceClassOID \<lparr>OID = ''.2.3'', SNMPGetConfiguration = (), operators = ()\<rparr>)"
    using t [of "''disk''" _ _ "\<lparr>OID = ''.2.3'', SNMPGetConfiguration = (), operators = ()\<rparr>"]
    by simp
  moreover have "map_of (merge ?d ?o) ''descr''
      = Some (DeviceClassOID \<lparr>OID = ''.1.1'', SNMPGetConfiguration = (), operators = ()\<rparr>)"
    using t [of "''descr''"] by (simp del: merge.simps)
  ultimately show ?thesis by blast
qed

section \<open>Properties of the merge in memory\<close>

lemma length_mapStore [simp]: "length (mapStore h a k v) = length h"
  by (simp add: mapStore_def)

lemma nth_mapStore_other: "i \<noteq> a \<Longrightarrow> mapStore h a k v ! i = h ! i"
  by (simp add: mapStore_def)

lemma length_copy [simp]:
  "length (fold (\<lambda>kv h'. mapStore h' a (fst kv) (snd kv)) es h) = length h"
  by (induction es arbitrary: h) simp_all

lemma nth_copy_other:
  "i \<noteq> a \<Longrightarrow> fold (\<lambda>kv h'. mapStore h' a (fst kv) (snd kv)) es h ! i = h ! i"
  by (induction es arbitrary: h) (simp_all add: nth_mapStore_other)

lemma merge_mem_frame_both:
  fixes h h2 :: "('c, 'o) store"
  shows
  "(\<forall>r h'. merge_mem fuel h d overwrite = Some (r, h') \<longrightarrow>
      r = length h \<and> length h < length h' \<and> (\<forall>i<length h. h' ! i = h ! i))"
  "(\<forall>r h'. mergeOverwrite_mem fuel2 h2 new es = Some (r, h') \<longrightarrow>
      r = new \<and> length h2 \<le> length h' \<and> (\<forall>i<length h2. i \<noteq> new \<longrightarrow> h' ! i = h2 ! i))"
proof (induction fuel h d overwrite and fuel2 h2 new es rule: merge_mem_mergeOverwrite_mem.induct)
  case (1 h d overwrite)
  then show ?case by simp
next
  case (2 fuel h d overwrite)
  show ?case
  proof (intro allI impI)
    fix r h'
    assume a: "merge_mem (Suc fuel) h d overwrite = Some (r, h')"
    define h1 where "h1 = fold (\<lambda>kv h'. mapStore h' (length h) (fst kv) (snd kv)) (mapAt h d) (h @ [[]])"
    from a have m: "mergeOverwrite_mem fuel h1 (length h) (mapAt h1 overwrite) = Some (r, h')"
      by (simp add: h1_def Let_def)
    from 2 [OF refl refl] m [unfolded h1_def]
    have r: "r = length h" and l: "length h1 \<le> length h'"
      and f: "\<forall>i<length h1. i \<noteq> length h \<longrightarrow> h' ! i = h1 ! i"
      unfolding h1_def by blast+
    have l1: "length h1 = Suc (length h)" by (simp add: h1_def)
    have "\<forall>i<length h. h' ! i = h ! i"
    proof (intro allI impI)
      fix i assume i: "i < length h"
      then have "h' ! i = h1 ! i" using f l1 by simp
      also have "\<dots> = (h @ [[]]) ! i" using i by (simp add: h1_def nth_copy_other)
      also have "\<dots> = h ! i" using i by (simp add: nth_append)
      finally show "h' ! i = h ! i" .
    qed
    with r l l1 show "r = length h \<and> length h < length h' \<and> (\<forall>i<length h. h' ! i = h ! i)"
      by simp
  qed
next
  case (3 fuel h new)
  then show ?case by simp
next
  case (4 fuel h new kv rest)
  show ?case
  proof (intro allI impI)
    fix r h'
    assume a: "mergeOverwrite_mem fuel h new (kv # rest) = Some (r, h')"
    have other: "r = new \<and> length h \<le> length h' \<and> (\<forall>i<length h. i \<noteq> new \<longrightarrow> h' ! i = h ! i)"
      if "mergeOverwrite_mem fuel (mapStore h new (fst kv) (snd kv)) new rest = Some (r, h')"
        and "\<forall>r h'. mergeOverwrite_mem fuel (mapStore h new (fst kv) (snd kv)) new rest
              = Some (r, h') \<longrightarrow>
            r = new \<and> length (mapStore h new (fst kv) (snd kv)) \<le> length h'
            \<and> (\<forall>i<length (mapStore h new (fst kv) (snd kv)). i \<noteq> new \<longrightarrow>
                  h' ! i = mapStore h new (fst kv) (snd kv) ! i)"
      using that by (simp add: nth_mapStore_other)
    show "r = new \<and> length h \<le> length h' \<and> (\<forall>i<length h. i \<noteq> new \<longrightarrow> h' ! i = h ! i)"
    proof (cases "map_of (mapAt h new) (fst kv)")
      case None
      with a have "mergeOverwrite_mem fuel (mapStore h new (fst kv) (snd kv)) new rest
          = Some (r, h')" by simp
      then show ?thesis using 4(1) [OF refl None] by (rule other)
    next
      case (Some old)
      show ?thesis
      proof (cases old)
        case (LeafRef leaf)
        with a Some have "mergeOverwrite_mem fuel (mapStore h new (fst kv) (snd kv)) new rest
          = Some (r, h')" by simp
        then show ?thesis using 4(2) [OF refl Some LeafRef] by (rule other)
      next
        case (OIDsRef oidsOld)
        show ?thesis
        proof (cases "snd kv")
          case lf: (LeafRef leaf)
          with a Some OIDsRef
          have "mergeOverwrite_mem fuel (mapStore h new (fst kv) (snd kv)) new rest
            = Some (r, h')" by simp
          then show ?thesis using 4(3) [OF refl Some OIDsRef lf] lf by (intro other) simp_all
        next
          case w: (OIDsRef oidsOverwrite)
          from a Some OIDsRef w obtain mergedOIDs hm where
            mm: "merge_mem fuel h oidsOld oidsOverwrite = Some (mergedOIDs, hm)" and
            rest: "mergeOverwrite_mem fuel (mapStore hm new (fst kv) (OIDsRef mergedOIDs)) new rest
              = Some (r, h')"
            by (auto split: option.splits)
          from 4(4) [OF refl Some OIDsRef w] mm
          have lm: "length h < length hm" and fm: "\<forall>i<length h. hm ! i = h ! i" by blast+
          from 4(5) [OF refl Some OIDsRef w mm refl] rest
          have "r = new" and "length hm \<le> length h'"
            and "\<forall>i<length hm. i \<noteq> new \<longrightarrow>
                   h' ! i = mapStore hm new (fst kv) (OIDsRef mergedOIDs) ! i"
            by simp_all
          with lm fm show ?thesis by (simp add: nth_mapStore_other)
        qed
      qed
    qed
  qed
qed


lemma merge_mem_frame:
  "merge_mem fuel h d overwrite = Some (r, h') \<Longrightarrow>
     r = length h \<and> length h < length h' \<and> (\<forall>i<length h. h' ! i = h ! i)"
  using merge_mem_frame_both(1) by blast

lemma mergeOverwrite_mem_frame:
  "mergeOverwrite_mem fuel h new es = Some (r, h') \<Longrightarrow>
     r = new \<and> length h \<le> length h' \<and> (\<forall>i<length h. i \<noteq> new \<longrightarrow> h' ! i = h ! i)"
  using merge_mem_frame_both(2) by blast

lemma closedStore_nth:
  "closedStore h \<Longrightarrow> a < length h \<Longrightarrow> kv \<in> set (h ! a) \<Longrightarrow> snd kv = OIDsRef a' \<Longrightarrow>
     a' < length h"
  by (fastforce simp: closedStore_def list_all_iff)

lemma treeAt_agree:
  assumes "closedStore h" and "length h \<le> length h'" and "\<forall>i<length h. h' ! i = h ! i"
  shows "a < length h \<Longrightarrow> treeAt depth h' a = treeAt depth h a"
proof (induction depth arbitrary: a)
  case 0
  then show ?case by simp
next
  case (Suc depth)
  have m: "mapAt h' a = mapAt h a" using Suc.prems assms by (simp add: mapAt_def)
  have "\<And>kv a'. kv \<in> set (mapAt h a) \<Longrightarrow> snd kv = OIDsRef a' \<Longrightarrow>
      treeAt depth h' a' = treeAt depth h a'"
    using Suc closedStore_nth [OF assms(1)] by (simp add: mapAt_def)
  then show ?case
    by (auto simp: m split: readerRef.splits)
qed

lemma depthWithin_agree:
  assumes "length hb \<le> length h" and "\<forall>i<length hb. h ! i = hb ! i"
  shows "depthWithin depth hb a \<Longrightarrow> depthWithin depth h a"
proof (induction depth arbitrary: a)
  case 0
  then show ?case by simp
next
  case (Suc depth)
  then have a: "a < length hb" by simp
  then have m: "mapAt h a = mapAt hb a" using assms by (simp add: mapAt_def)
  from Suc show ?case using a assms(1)
    by (auto simp: m list_all_iff split: readerRef.splits)
qed

lemma merge_mem_returns_both:
  fixes h h2 :: "('c, 'o) store"
  shows
  "depthWithin fuel h overwrite \<longrightarrow> merge_mem fuel h d overwrite \<noteq> None"
  "(\<forall>hb. length hb \<le> new \<and> length hb \<le> length h2 \<and> (\<forall>i<length hb. h2 ! i = hb ! i)
        \<and> list_all (\<lambda>kv. case snd kv of LeafRef leaf \<Rightarrow> True
                                    | OIDsRef a' \<Rightarrow> depthWithin fuel2 hb a') es \<longrightarrow>
      mergeOverwrite_mem fuel2 h2 new es \<noteq> None)"
proof (induction fuel h d overwrite and fuel2 h2 new es rule: merge_mem_mergeOverwrite_mem.induct)
  case (1 h d overwrite)
  then show ?case by simp
next
  case (2 fuel h d overwrite)
  show ?case
  proof
    assume dw: "depthWithin (Suc fuel) h overwrite"
    define h1 where
      "h1 = fold (\<lambda>kv h'. mapStore h' (length h) (fst kv) (snd kv)) (mapAt h d) (h @ [[]])"
    have l1: "length h \<le> length h1" by (simp add: h1_def)
    have ag: "\<forall>i<length h. h1 ! i = h ! i"
      by (simp add: h1_def nth_copy_other nth_append)
    from dw have ov: "overwrite < length h" by simp
    with ag l1 have m: "mapAt h1 overwrite = mapAt h overwrite" by (simp add: mapAt_def)
    from dw have "list_all (\<lambda>kv. case snd kv of LeafRef leaf \<Rightarrow> True
                                    | OIDsRef a' \<Rightarrow> depthWithin fuel h a') (mapAt h1 overwrite)"
      by (simp add: m)
    with 2 [OF refl refl] l1 ag
    have "mergeOverwrite_mem fuel h1 (length h) (mapAt h1 overwrite) \<noteq> None"
      unfolding h1_def by blast
    then show "merge_mem (Suc fuel) h d overwrite \<noteq> None"
      by (simp add: h1_def Let_def)
  qed
next
  case (3 fuel h new)
  then show ?case by simp
next
  case (4 fuel h new kv rest)
  show ?case
  proof (intro allI impI)
    fix hb
    assume a: "length hb \<le> new \<and> length hb \<le> length h \<and> (\<forall>i<length hb. h ! i = hb ! i)
        \<and> list_all (\<lambda>kv. case snd kv of LeafRef leaf \<Rightarrow> True
                                    | OIDsRef a' \<Rightarrow> depthWithin fuel hb a') (kv # rest)"
    then have rest: "list_all (\<lambda>kv. case snd kv of LeafRef leaf \<Rightarrow> True
                                    | OIDsRef a' \<Rightarrow> depthWithin fuel hb a') rest" by simp
    have other: "mergeOverwrite_mem fuel (mapStore h new (fst kv) (snd kv)) new rest \<noteq> None"
      if "\<forall>hb. length hb \<le> new \<and> length hb \<le> length (mapStore h new (fst kv) (snd kv))
            \<and> (\<forall>i<length hb. mapStore h new (fst kv) (snd kv) ! i = hb ! i)
            \<and> list_all (\<lambda>kv. case snd kv of LeafRef leaf \<Rightarrow> True
                                    | OIDsRef a' \<Rightarrow> depthWithin fuel hb a') rest \<longrightarrow>
          mergeOverwrite_mem fuel (mapStore h new (fst kv) (snd kv)) new rest \<noteq> None"
    proof -
      have "\<forall>i<length hb. mapStore h new (fst kv) (snd kv) ! i = hb ! i"
        using a by (simp add: nth_mapStore_other)
      with a rest have "length hb \<le> new \<and> length hb \<le> length (mapStore h new (fst kv) (snd kv))
            \<and> (\<forall>i<length hb. mapStore h new (fst kv) (snd kv) ! i = hb ! i)
            \<and> list_all (\<lambda>kv. case snd kv of LeafRef leaf \<Rightarrow> True
                                    | OIDsRef a' \<Rightarrow> depthWithin fuel hb a') rest"
        by simp
      with that show ?thesis by blast
    qed
    show "mergeOverwrite_mem fuel h new (kv # rest) \<noteq> None"
    proof (cases "map_of (mapAt h new) (fst kv)")
      case None
      with other [OF 4(1) [OF refl None]] show ?thesis by simp
    next
      case (Some old)
      show ?thesis
      proof (cases old)
        case (LeafRef leaf)
        with other [OF 4(2) [OF refl Some LeafRef]] Some show ?thesis by simp
      next
        case (OIDsRef oidsOld)
        show ?thesis
        proof (cases "snd kv")
          case lf: (LeafRef leaf)
          with other [OF 4(3) [OF refl Some OIDsRef lf]] Some OIDsRef show ?thesis by simp
        next
          case w: (OIDsRef oidsOverwrite)
          from a w have "depthWithin fuel hb oidsOverwrite" by simp
          then have "depthWithin fuel h oidsOverwrite"
            using a by (intro depthWithin_agree [of hb h]) simp_all
          with 4(4) [OF refl Some OIDsRef w] obtain mergedOIDs hm where
            mm: "merge_mem fuel h oidsOld oidsOverwrite = Some (mergedOIDs, hm)" by auto
          from merge_mem_frame [OF mm]
          have lm: "length h < length hm" and fm: "\<forall>i<length h. hm ! i = h ! i" by blast+
          have "\<forall>i<length hb. mapStore hm new (fst kv) (OIDsRef mergedOIDs) ! i = hb ! i"
            using a lm fm by (simp add: nth_mapStore_other)
          with a rest lm
          have "length hb \<le> new
            \<and> length hb \<le> length (mapStore hm new (fst kv) (OIDsRef mergedOIDs))
            \<and> (\<forall>i<length hb. mapStore hm new (fst kv) (OIDsRef mergedOIDs) ! i = hb ! i)
            \<and> list_all (\<lambda>kv. case snd kv of LeafRef leaf \<Rightarrow> True
                                    | OIDsRef a' \<Rightarrow> depthWithin fuel hb a') rest"
            by simp
          with 4(5) [OF refl Some OIDsRef w mm refl]
          have "mergeOverwrite_mem fuel (mapStore hm new (fst kv) (OIDsRef mergedOIDs)) new rest
              \<noteq> None"
            by blast
          with Some OIDsRef w mm show ?thesis by simp
        qed
      qed
    qed
  qed
qed


text \<open>
  C6: a call of \<^verbatim>\<open>merge\<close> that returns gives the address of a new map, one that the store did
  not have before, and leaves every map of the store as it was; so in a store whose maps hold
  addresses of the store only, the tree under every old address, in particular under the two
  arguments, is the same after the call as before, and so is every read of it. The call returns
  whenever the tree of \<^verbatim>\<open>overwrite\<close> is no deeper than the bound of the recursion.
\<close>

theorem merge_mem_leaves_arguments_unchanged:
  fixes h :: "('c, 'o) store" and n :: "('r, 'c, 'o, 'v) network"
  shows
    "(merge_mem fuel h a b = Some (r, h') \<longrightarrow>
        r = length h \<and> length h < length h' \<and> take (length h) h' = h
        \<and> (closedStore h \<and> x < length h \<longrightarrow>
             treeAt depth h' x = treeAt depth h x
             \<and> readOID n (DeviceClassOIDs (treeAt depth h' x))
                 = readOID n (DeviceClassOIDs (treeAt depth h x))))
     \<and> (depthWithin fuel h b \<longrightarrow> (\<exists>r h'. merge_mem fuel h a b = Some (r, h')))"
proof (intro conjI impI)
  assume m: "merge_mem fuel h a b = Some (r, h')"
  note f = merge_mem_frame [OF m]
  from f show "r = length h" and "length h < length h'" by simp_all
  from f show "take (length h) h' = h"
    by (intro nth_equalityI) simp_all
  assume c: "closedStore h \<and> x < length h"
  with f show t: "treeAt depth h' x = treeAt depth h x"
    by (intro treeAt_agree) simp_all
  show "readOID n (DeviceClassOIDs (treeAt depth h' x))
      = readOID n (DeviceClassOIDs (treeAt depth h x))"
    by (simp only: t)
next
  assume "depthWithin fuel h b"
  then show "\<exists>r h'. merge_mem fuel h a b = Some (r, h')"
    using merge_mem_returns_both(1) [of fuel h b a] by auto
qed

text \<open>
  Witness of C6: the maps at the addresses 0 and 1 both hold a subtree under \<open>cpu\<close>, so the
  merge recurses; it returns the new address 4, and the four old maps and the tree under
  address 0 are as before.
\<close>

theorem merge_mem_leaves_arguments_unchanged_witness:
  "(\<exists>r h'. merge_mem 2
       [[(''cpu'', OIDsRef 2),
         (''descr'', LeafRef \<lparr>OID = ''.1.1'', SNMPGetConfiguration = (), operators = ()\<rparr>)],
        [(''cpu'', OIDsRef 3)],
        [(''load'', LeafRef \<lparr>OID = ''.1.2'', SNMPGetConfiguration = (), operators = ()\<rparr>)],
        [(''temp'', LeafRef \<lparr>OID = ''.2.2'', SNMPGetConfiguration = (), operators = ()\<rparr>)]]
       0 1 = Some (r, h')
     \<and> r = 4
     \<and> take 4 h' =
       [[(''cpu'', OIDsRef 2),
         (''descr'', LeafRef \<lparr>OID = ''.1.1'', SNMPGetConfiguration = (), operators = ()\<rparr>)],
        [(''cpu'', OIDsRef 3)],
        [(''load'', LeafRef \<lparr>OID = ''.1.2'', SNMPGetConfiguration = (), operators = ()\<rparr>)],
        [(''temp'', LeafRef \<lparr>OID = ''.2.2'', SNMPGetConfiguration = (), operators = ()\<rparr>)]]
     \<and> treeAt 2 h' 0 =
       [(''cpu'', DeviceClassOIDs
          [(''load'', DeviceClassOID \<lparr>OID = ''.1.2'', SNMPGetConfiguration = (), operators = ()\<rparr>)]),
        (''descr'', DeviceClassOID \<lparr>OID = ''.1.1'', SNMPGetConfiguration = (), operators = ()\<rparr>)])"
proof -
  let ?h = "[[(''cpu'', OIDsRef 2),
         (''descr'', LeafRef \<lparr>OID = ''.1.1'', SNMPGetConfiguration = (), operators = ()\<rparr>)],
        [(''cpu'', OIDsRef 3)],
        [(''load'', LeafRef \<lparr>OID = ''.1.2'', SNMPGetConfiguration = (), operators = ()\<rparr>)],
        [(''temp'', LeafRef \<lparr>OID = ''.2.2'', SNMPGetConfiguration = (), operators = ()\<rparr>)]]"
  have d: "depthWithin 2 ?h 1"
    by (simp add: numeral_2_eq_2 mapAt_def)
  have c: "closedStore ?h"
    by (simp add: closedStore_def)
  have t: "treeAt 2 ?h 0 =
       [(''cpu'', DeviceClassOIDs
          [(''load'', DeviceClassOID \<lparr>OID = ''.1.2'', SNMPGetConfiguration = (), operators = ()\<rparr>)]),
        (''descr'', DeviceClassOID \<lparr>OID = ''.1.1'', SNMPGetConfiguration = (), operators = ()\<rparr>)]"
    by (simp add: numeral_2_eq_2 mapAt_def)
  from d merge_mem_leaves_arguments_unchanged [of 2 ?h 0 1]
  obtain r h' where m: "merge_mem 2 ?h 0 1 = Some (r, h')" by blast
  note T = merge_mem_leaves_arguments_unchanged
    [of 2 ?h 0 1 r h' 0 2
       "\<lparr>SNMPWalk = None, GetOID = (\<lambda>r :: unit. []),
         GetValueBySNMPGetConfiguration = (\<lambda>r c. Inr []),
         applyOperators = (\<lambda>ops s. Inr s)\<rparr>"]
  have len: "length ?h = 4" and pos: "0 < length ?h" by simp_all
  from T m have "r = length ?h" and "take (length ?h) h' = ?h" by blast+
  then have r: "r = 4" and k: "take 4 h' = ?h" unfolding len by blast+
  from T m c pos have "treeAt 2 h' 0 = treeAt 2 ?h 0" by blast
  with t have "treeAt 2 h' 0 =
       [(''cpu'', DeviceClassOIDs
          [(''load'', DeviceClassOID \<lparr>OID = ''.1.2'', SNMPGetConfiguration = (), operators = ()\<rparr>)]),
        (''descr'', DeviceClassOID \<lparr>OID = ''.1.1'', SNMPGetConfiguration = (), operators = ()\<rparr>)]"
    by (simp only:)
  with m r k show ?thesis by blast
qed

section \<open>Properties of the group reader\<close>

lemma map_of_setLabel:
  "map_of (setLabel label (j, v) result) i
     = (if i = j then Some (AList.update label v (case map_of result j of None \<Rightarrow> [] | Some row \<Rightarrow> row))
        else map_of result i)"
  by (simp add: setLabel_def update_conv' split: option.splits)

lemma distinct_setLabel:
  "distinct (map fst result) \<Longrightarrow> distinct (map fst (setLabel label iv result))"
  by (simp add: setLabel_def distinct_update split: option.splits)

lemma distinct_fold_setLabel:
  "distinct (map fst result) \<Longrightarrow> distinct (map fst (fold (setLabel label) res result))"
  by (induction res arbitrary: result) (simp_all add: distinct_setLabel)

lemma map_of_fold_setLabel:
  "distinct (map fst res) \<Longrightarrow>
   map_of (fold (setLabel label) res result) i
     = (case map_of res i of
          None \<Rightarrow> map_of result i
        | Some v \<Rightarrow>
            Some (AList.update label v (case map_of result i of None \<Rightarrow> [] | Some row \<Rightarrow> row)))"
proof (induction res arbitrary: result)
  case Nil
  then show ?case by simp
next
  case (Cons jv res)
  obtain j v where jv: "jv = (j, v)" by (cases jv)
  from Cons.prems jv have nj: "map_of res j = None" and dist: "distinct (map fst res)"
    by (simp_all add: map_of_eq_None_iff)
  show ?case
  proof (cases "i = j")
    case True
    with jv nj Cons.IH [OF dist] show ?thesis
      by (simp add: map_of_setLabel cong: option.case_cong)
  next
    case False
    with jv Cons.IH [OF dist] show ?thesis
      by (simp add: map_of_setLabel cong: option.case_cong)
  qed
qed

lemma cellOf_fold_setLabel:
  "distinct (map fst res) \<Longrightarrow>
   cellOf (fold (setLabel l) res result) i label
     = (case map_of res i of
          None \<Rightarrow> cellOf result i label
        | Some v \<Rightarrow> if label = l then Some v else cellOf result i label)"
  by (simp add: cellOf_def map_of_fold_setLabel update_conv' split: option.splits)

lemma keys_fold_setLabel:
  "fst ` set (fold (setLabel label) res result) = fst ` set result \<union> fst ` set res"
proof (induction res arbitrary: result)
  case Nil
  then show ?case by simp
next
  case (Cons jv res)
  have "fst ` set (setLabel label jv result) = insert (fst jv) (fst ` set result)"
    by (simp add: setLabel_def dom_update split: option.splits)
  with Cons show ?case by auto
qed


lemma readResponses_distinct:
  "distinct (map fst result) \<Longrightarrow> readResponses n d rs result = Inr result' \<Longrightarrow>
     distinct (map fst result')"
proof (induction rs arbitrary: result)
  case Nil
  then show ?case by simp
next
  case (Cons a rs)
  show ?case
  proof (cases rule: readResponses_Cons_cases [of n a d rs result])
    case (getfail e)
    with Cons.prems show ?thesis by simp
  next
    case skip
    with Cons show ?thesis by simp
  next
    case (opfail res e)
    with Cons.prems show ?thesis by simp
  next
    case (indexfail res v e)
    with Cons.prems show ?thesis by simp
  next
    case (store res v index)
    with Cons.prems have "readResponses n d rs (AList.update index v result) = Inr result'"
      by simp
    moreover have "distinct (map fst (AList.update index v result))"
      using Cons.prems(1) by (simp add: distinct_update)
    ultimately show ?thesis using Cons.IH by blast
  qed
qed

lemma deviceClassOID_readOID_distinct:
  "deviceClassOID_readOID n d = Inr res \<Longrightarrow> distinct (map fst res)"
  by (auto simp: deviceClassOID_readOID_def split: option.splits sum.splits if_splits
      intro: readResponses_distinct [of "[]"])

lemma distinct_fold_Rowmap:
  "distinct (map fst acc) \<Longrightarrow>
   distinct (map fst (fold (\<lambda>kv r. AList.update (fst kv) (Rowmap (snd kv)) r) result acc))"
  by (induction result arbitrary: acc) (simp_all add: distinct_update)

lemma keys_fold_Rowmap:
  "fst ` set (fold (\<lambda>kv r. AList.update (fst kv) (Rowmap (snd kv)) r) result acc)
     = fst ` set acc \<union> fst ` set result"
  by (induction result arbitrary: acc) (auto simp: dom_update)

lemma map_of_fold_Rowmap:
  "distinct (map fst result) \<Longrightarrow>
   map_of (fold (\<lambda>kv r. AList.update (fst kv) (Rowmap (snd kv)) r) result acc) i
     = (case map_of result i of None \<Rightarrow> map_of acc i | Some row \<Rightarrow> Some (Rowmap row))"
proof (induction result arbitrary: acc)
  case Nil
  then show ?case by simp
next
  case (Cons x result)
  then have "fst x \<notin> fst ` set result" by simp
  then have "i = fst x \<Longrightarrow> map_of result i = None" by (simp add: map_of_eq_None_iff)
  with Cons show ?case
    by (cases x) (auto simp: update_conv' split: option.splits)
qed

lemma readOID_distinct: "readOID n r = Inr res \<Longrightarrow> distinct (map fst res)"
proof (cases r)
  case (DeviceClassOID d)
  assume "readOID n r = Inr res"
  with DeviceClassOID obtain result where
    "deviceClassOID_readOID n d = Inr result" and
    "res = map (\<lambda>kv. (fst kv, Scalar (snd kv))) result"
    by (auto split: sum.splits)
  with deviceClassOID_readOID_distinct [of n d result] show ?thesis
    by (simp add: comp_def)
next
  case (DeviceClassOIDs d)
  assume "readOID n r = Inr res"
  with DeviceClassOIDs show ?thesis
    by (auto split: sum.splits simp: distinct_fold_Rowmap)
qed

lemma readLabels_ok:
  assumes "distinct (map fst d)"
    and "\<forall>lr\<in>set d. \<forall>err. readOID n (snd lr) = Inl err \<longrightarrow> IsNotFoundError err"
  shows "\<exists>result'. readLabels n d result = Inr result'
     \<and> (distinct (map fst result) \<longrightarrow> distinct (map fst result'))
     \<and> fst ` set result'
         = fst ` set result
           \<union> {i. \<exists>lr\<in>set d. \<exists>res. readOID n (snd lr) = Inr res \<and> i \<in> fst ` set res}
     \<and> (\<forall>i label. cellOf result' i label
           = (case map_of d label of
                None \<Rightarrow> cellOf result i label
              | Some reader \<Rightarrow>
                  (case readOID n reader of
                     Inl err \<Rightarrow> cellOf result i label
                   | Inr res \<Rightarrow>
                       (case map_of res i of
                          None \<Rightarrow> cellOf result i label
                        | Some v \<Rightarrow> Some v))))"
  using assms
proof (induction d arbitrary: result)
  case Nil
  then show ?case by simp
next
  case (Cons lr d)
  obtain l rd where lr: "lr = (l, rd)" by (cases lr)
  from Cons.prems lr have nl: "map_of d l = None" and dist: "distinct (map fst d)"
    and nf: "\<forall>lr\<in>set d. \<forall>err. readOID n (snd lr) = Inl err \<longrightarrow> IsNotFoundError err"
    by (simp_all add: map_of_eq_None_iff)
  show ?case
  proof (cases "readOID n rd")
    case (Inl err)
    with Cons.prems lr have "IsNotFoundError err" by simp
    with Inl lr have step: "readLabels n (lr # d) result = readLabels n d result" by simp
    from Cons.IH [OF dist nf, of result] obtain result' where
      r: "readLabels n d result = Inr result'" and
      d': "distinct (map fst result) \<longrightarrow> distinct (map fst result')" and
      k: "fst ` set result' = fst ` set result
           \<union> {i. \<exists>lr\<in>set d. \<exists>res. readOID n (snd lr) = Inr res \<and> i \<in> fst ` set res}" and
      c: "\<forall>i label. cellOf result' i label
           = (case map_of d label of
                None \<Rightarrow> cellOf result i label
              | Some reader \<Rightarrow>
                  (case readOID n reader of
                     Inl err \<Rightarrow> cellOf result i label
                   | Inr res \<Rightarrow>
                       (case map_of res i of
                          None \<Rightarrow> cellOf result i label
                        | Some v \<Rightarrow> Some v)))"
      by blast
    have k': "fst ` set result' = fst ` set result
           \<union> {i. \<exists>lr\<in>set (lr # d). \<exists>res. readOID n (snd lr) = Inr res \<and> i \<in> fst ` set res}"
      using k lr Inl by auto
    have c': "\<forall>i label. cellOf result' i label
           = (case map_of (lr # d) label of
                None \<Rightarrow> cellOf result i label
              | Some reader \<Rightarrow>
                  (case readOID n reader of
                     Inl err \<Rightarrow> cellOf result i label
                   | Inr res \<Rightarrow>
                       (case map_of res i of
                          None \<Rightarrow> cellOf result i label
                        | Some v \<Rightarrow> Some v)))"
      using c lr Inl nl by simp
    from step r d' k' c' show ?thesis by auto
  next
    case (Inr res)
    define result1 where "result1 = fold (setLabel l) res result"
    from Inr lr have step: "readLabels n (lr # d) result = readLabels n d result1"
      by (simp add: result1_def)
    have dres: "distinct (map fst res)" using Inr by (rule readOID_distinct)
    from Cons.IH [OF dist nf, of result1] obtain result' where
      r: "readLabels n d result1 = Inr result'" and
      d': "distinct (map fst result1) \<longrightarrow> distinct (map fst result')" and
      k: "fst ` set result' = fst ` set result1
           \<union> {i. \<exists>lr\<in>set d. \<exists>res. readOID n (snd lr) = Inr res \<and> i \<in> fst ` set res}" and
      c: "\<forall>i label. cellOf result' i label
           = (case map_of d label of
                None \<Rightarrow> cellOf result1 i label
              | Some reader \<Rightarrow>
                  (case readOID n reader of
                     Inl err \<Rightarrow> cellOf result1 i label
                   | Inr res \<Rightarrow>
                       (case map_of res i of
                          None \<Rightarrow> cellOf result1 i label
                        | Some v \<Rightarrow> Some v)))"
      by blast
    have d'': "distinct (map fst result) \<longrightarrow> distinct (map fst result')"
      using d' by (simp add: result1_def distinct_fold_setLabel)
    have k': "fst ` set result' = fst ` set result
           \<union> {i. \<exists>lr\<in>set (lr # d). \<exists>res. readOID n (snd lr) = Inr res \<and> i \<in> fst ` set res}"
      using k lr Inr by (auto simp: result1_def keys_fold_setLabel)
    have c1: "\<And>i label. cellOf result1 i label
        = (case map_of res i of
          None \<Rightarrow> cellOf result i label
        | Some v \<Rightarrow> if label = l then Some v else cellOf result i label)"
      unfolding result1_def using dres by (rule cellOf_fold_setLabel)
    have c': "\<forall>i label. cellOf result' i label
           = (case map_of (lr # d) label of
                None \<Rightarrow> cellOf result i label
              | Some reader \<Rightarrow>
                  (case readOID n reader of
                     Inl err \<Rightarrow> cellOf result i label
                   | Inr res \<Rightarrow>
                       (case map_of res i of
                          None \<Rightarrow> cellOf result i label
                        | Some v \<Rightarrow> Some v)))"
    proof (intro allI)
      fix i label
      show "cellOf result' i label
           = (case map_of (lr # d) label of
                None \<Rightarrow> cellOf result i label
              | Some reader \<Rightarrow>
                  (case readOID n reader of
                     Inl err \<Rightarrow> cellOf result i label
                   | Inr res \<Rightarrow>
                       (case map_of res i of
                          None \<Rightarrow> cellOf result i label
                        | Some v \<Rightarrow> Some v)))"
      proof (cases "label = l")
        case True
        with c nl have "cellOf result' i label = cellOf result1 i l" by simp
        with True lr Inr c1 [of i l] show ?thesis by (simp split: option.splits)
      next
        case False
        with c [rule_format, of i label] lr c1 [of i label] show ?thesis
          by (simp split: option.splits sum.splits)
      qed
    qed
    from step r d'' k' c' show ?thesis by auto
  qed
qed

lemma readLabels_fail:
  assumes "\<exists>lr\<in>set d. \<exists>err. readOID n (snd lr) = Inl err \<and> \<not> IsNotFoundError err"
  shows "\<exists>lr\<in>set d. \<exists>err. readOID n (snd lr) = Inl err \<and> \<not> IsNotFoundError err
     \<and> readLabels n d result
         = Inl (Wrap err (''failed to get value '' @ [CHR 0x27] @ fst lr @ [CHR 0x27]))"
  using assms
proof (induction d arbitrary: result)
  case Nil
  then show ?case by simp
next
  case (Cons lr d)
  show ?case
  proof (cases "readOID n (snd lr)")
    case (Inl err)
    show ?thesis
    proof (cases "IsNotFoundError err")
      case True
      with Inl Cons.prems
      have "\<exists>lr\<in>set d. \<exists>err. readOID n (snd lr) = Inl err \<and> \<not> IsNotFoundError err" by auto
      from Cons.IH [OF this, of result] True Inl show ?thesis by auto
    next
      case False
      with Inl show ?thesis by (intro bexI [of _ lr]) auto
    qed
  next
    case (Inr res)
    with Cons.prems
    have "\<exists>lr\<in>set d. \<exists>err. readOID n (snd lr) = Inl err \<and> \<not> IsNotFoundError err" by auto
    from Cons.IH [OF this, of "fold (setLabel (fst lr)) res result"] Inr show ?thesis by auto
  qed
qed


text \<open>
  C5: let the labels of a nested tree be distinct (as the keys of every Go map are). When
  every child read succeeds or fails with a not-found error, the read of the tree succeeds; its
  rows are the indices that the successful child reads have, each row is a group, and the group
  of an index holds for a label exactly the value that the read of this label has at this index
  (nothing for a label whose read has no value there or was not found). When some child read
  fails with another error, the read of the tree fails with the error of such a child, wrapped
  with the label.
\<close>

theorem readOID_group_union_of_indices:
  assumes "distinct (map fst d)"
  shows
    "((\<forall>lr\<in>set d. \<forall>err. readOID n (snd lr) = Inl err \<longrightarrow> IsNotFoundError err) \<longrightarrow>
        (\<exists>r. readOID n (DeviceClassOIDs d) = Inr r \<and> distinct (map fst r)
           \<and> fst ` set r
               = {i. \<exists>lr\<in>set d. \<exists>res. readOID n (snd lr) = Inr res \<and> i \<in> fst ` set res}
           \<and> (\<forall>i\<in>fst ` set r. \<exists>row. map_of r i = Some (Rowmap row))
           \<and> (\<forall>i label. valueAt r i label
                 = (case map_of d label of
                      None \<Rightarrow> None
                    | Some reader \<Rightarrow>
                        (case readOID n reader of
                           Inl err \<Rightarrow> None
                         | Inr res \<Rightarrow> map_of res i)))))
     \<and> ((\<exists>lr\<in>set d. \<exists>err. readOID n (snd lr) = Inl err \<and> \<not> IsNotFoundError err) \<longrightarrow>
          (\<exists>lr\<in>set d. \<exists>err. readOID n (snd lr) = Inl err \<and> \<not> IsNotFoundError err
             \<and> readOID n (DeviceClassOIDs d)
                 = Inl (Wrap err (''failed to get value '' @ [CHR 0x27] @ fst lr @ [CHR 0x27]))))"
proof (intro conjI impI)
  assume nf: "\<forall>lr\<in>set d. \<forall>err. readOID n (snd lr) = Inl err \<longrightarrow> IsNotFoundError err"
  from readLabels_ok [OF assms nf, of "[]"] obtain result where
    r: "readLabels n d [] = Inr result" and
    dr: "distinct (map fst result)" and
    k: "fst ` set result
         = {i. \<exists>lr\<in>set d. \<exists>res. readOID n (snd lr) = Inr res \<and> i \<in> fst ` set res}" and
    c0: "\<forall>i label. cellOf result i label
           = (case map_of d label of
                None \<Rightarrow> cellOf [] i label
              | Some reader \<Rightarrow>
                  (case readOID n reader of
                     Inl err \<Rightarrow> cellOf [] i label
                   | Inr res \<Rightarrow>
                       (case map_of res i of
                          None \<Rightarrow> cellOf [] i label
                        | Some v \<Rightarrow> Some v)))"
    by auto
  have c: "cellOf result i label
           = (case map_of d label of
                None \<Rightarrow> None
              | Some reader \<Rightarrow>
                  (case readOID n reader of
                     Inl err \<Rightarrow> None
                   | Inr res \<Rightarrow> map_of res i))" for i label
    using c0 [rule_format, of i label]
    by (simp add: cellOf_def split: option.splits sum.splits)
  define r' where "r' = fold (\<lambda>kv r. AList.update (fst kv) (Rowmap (snd kv)) r) result []"
  have m: "\<And>i. map_of r' i = (case map_of result i of None \<Rightarrow> None | Some row \<Rightarrow> Some (Rowmap row))"
    unfolding r'_def using map_of_fold_Rowmap [OF dr, of "[]"]
    by (simp cong: option.case_cong)
  have 1: "readOID n (DeviceClassOIDs d) = Inr r'" using r by (simp add: r'_def)
  have 2: "distinct (map fst r')" by (simp add: r'_def distinct_fold_Rowmap)
  have 3: "fst ` set r'
      = {i. \<exists>lr\<in>set d. \<exists>res. readOID n (snd lr) = Inr res \<and> i \<in> fst ` set res}"
    using k by (simp add: r'_def keys_fold_Rowmap)
  have 4: "\<forall>i\<in>fst ` set r'. \<exists>row. map_of r' i = Some (Rowmap row)"
  proof
    fix i assume "i \<in> fst ` set r'"
    then have "i \<in> fst ` set result" by (simp add: r'_def keys_fold_Rowmap)
    then obtain row where "map_of result i = Some row"
      by (cases "map_of result i") (auto simp: map_of_eq_None_iff)
    then show "\<exists>row. map_of r' i = Some (Rowmap row)" by (simp add: m)
  qed
  have 5: "\<forall>i label. valueAt r' i label
                 = (case map_of d label of
                      None \<Rightarrow> None
                    | Some reader \<Rightarrow>
                        (case readOID n reader of
                           Inl err \<Rightarrow> None
                         | Inr res \<Rightarrow> map_of res i))"
  proof (intro allI)
    fix i label
    have "valueAt r' i label = cellOf result i label"
      by (simp add: valueAt_def cellOf_def m split: option.splits)
    with c show "valueAt r' i label
                 = (case map_of d label of
                      None \<Rightarrow> None
                    | Some reader \<Rightarrow>
                        (case readOID n reader of
                           Inl err \<Rightarrow> None
                         | Inr res \<Rightarrow> map_of res i))"
      by simp
  qed
  from 1 2 3 4 5 show "\<exists>r. readOID n (DeviceClassOIDs d) = Inr r \<and> distinct (map fst r)
           \<and> fst ` set r
               = {i. \<exists>lr\<in>set d. \<exists>res. readOID n (snd lr) = Inr res \<and> i \<in> fst ` set res}
           \<and> (\<forall>i\<in>fst ` set r. \<exists>row. map_of r i = Some (Rowmap row))
           \<and> (\<forall>i label. valueAt r i label
                 = (case map_of d label of
                      None \<Rightarrow> None
                    | Some reader \<Rightarrow>
                        (case readOID n reader of
                           Inl err \<Rightarrow> None
                         | Inr res \<Rightarrow> map_of res i)))"
    by blast
next
  assume "\<exists>lr\<in>set d. \<exists>err. readOID n (snd lr) = Inl err \<and> \<not> IsNotFoundError err"
  from readLabels_fail [OF this, of "[]"] obtain lr err where
    "lr \<in> set d" and "readOID n (snd lr) = Inl err" and "\<not> IsNotFoundError err" and
    "readLabels n d []
       = Inl (Wrap err (''failed to get value '' @ [CHR 0x27] @ fst lr @ [CHR 0x27]))"
    by blast
  then show "\<exists>lr\<in>set d. \<exists>err. readOID n (snd lr) = Inl err \<and> \<not> IsNotFoundError err
             \<and> readOID n (DeviceClassOIDs d)
                 = Inl (Wrap err (''failed to get value '' @ [CHR 0x27] @ fst lr @ [CHR 0x27]))"
    by (intro bexI [of _ lr] exI [of _ err]) simp_all
qed


text \<open>
  Witness of C5: label X has the rows 1 and 2, label Y the row 2, and label Z is not found;
  the read has the rows 1 and 2, row 1 with X only and row 2 with X and Y. With a timeout for Y
  the read fails.
\<close>

theorem readOID_group_union_of_indices_witness:
  "(\<exists>r. readOID
       \<lparr>SNMPWalk = Some (\<lambda>oid.
          if oid = ''.1'' then Inr [(''.1.1'', ''a''), (''.1.2'', ''b'')]
          else if oid = ''.2'' then Inr [(''.2.2'', ''c'')]
          else Inl (NotFoundError ''no such object'')),
        GetOID = fst, GetValueBySNMPGetConfiguration = (\<lambda>r c. Inr (snd r)),
        applyOperators = (\<lambda>ops s. Inr s)\<rparr>
       (DeviceClassOIDs
          [(''X'', DeviceClassOID \<lparr>OID = ''.1'', SNMPGetConfiguration = (), operators = ()\<rparr>),
           (''Y'', DeviceClassOID \<lparr>OID = ''.2'', SNMPGetConfiguration = (), operators = ()\<rparr>),
           (''Z'', DeviceClassOID \<lparr>OID = ''.3'', SNMPGetConfiguration = (), operators = ()\<rparr>)])
       = Inr r
     \<and> fst ` set r = {1, 2}
     \<and> valueAt r 1 ''X'' = Some (Scalar ''a'') \<and> valueAt r 1 ''Y'' = None
     \<and> valueAt r 2 ''X'' = Some (Scalar ''b'') \<and> valueAt r 2 ''Y'' = Some (Scalar ''c''))
   \<and> isl (readOID
       \<lparr>SNMPWalk = Some (\<lambda>oid.
          if oid = ''.1'' then Inr [(''.1.1'', ''a''), (''.1.2'', ''b'')]
          else Inl (OtherError ''timeout'')),
        GetOID = fst, GetValueBySNMPGetConfiguration = (\<lambda>r c. Inr (snd r)),
        applyOperators = (\<lambda>ops s. (Inr s :: error + string))\<rparr>
       (DeviceClassOIDs
          [(''X'', DeviceClassOID \<lparr>OID = ''.1'', SNMPGetConfiguration = (), operators = ()\<rparr>),
           (''Y'', DeviceClassOID \<lparr>OID = ''.2'', SNMPGetConfiguration = (), operators = ()\<rparr>)]))"
proof -
  let ?X = "DeviceClassOID \<lparr>OID = ''.1'', SNMPGetConfiguration = (), operators = ()\<rparr>"
  let ?Y = "DeviceClassOID \<lparr>OID = ''.2'', SNMPGetConfiguration = (), operators = ()\<rparr>"
  let ?Z = "DeviceClassOID \<lparr>OID = ''.3'', SNMPGetConfiguration = (), operators = ()\<rparr>"
  let ?n = "\<lparr>SNMPWalk = Some (\<lambda>oid.
          if oid = ''.1'' then Inr [(''.1.1'', ''a''), (''.1.2'', ''b'')]
          else if oid = ''.2'' then Inr [(''.2.2'', ''c'')]
          else Inl (NotFoundError ''no such object'')),
        GetOID = fst, GetValueBySNMPGetConfiguration = (\<lambda>r c. Inr (snd r)),
        applyOperators = (\<lambda>ops s. Inr s)\<rparr>"
  let ?m = "\<lparr>SNMPWalk = Some (\<lambda>oid.
          if oid = ''.1'' then Inr [(''.1.1'', ''a''), (''.1.2'', ''b'')]
          else Inl (OtherError ''timeout'')),
        GetOID = fst, GetValueBySNMPGetConfiguration = (\<lambda>r c. Inr (snd r)),
        applyOperators = (\<lambda>ops s. (Inr s :: error + string))\<rparr>"
  let ?d = "[(''X'', ?X), (''Y'', ?Y), (''Z'', ?Z)]"
  let ?e = "[(''X'', ?X), (''Y'', ?Y)]"
  have x: "readOID ?n ?X = Inr [(1, Scalar ''a''), (2, Scalar ''b'')]"
    by (simp add: deviceClassOID_readOID_def Atoi_def isDigit_def digitsValue_def)
  have y: "readOID ?n ?Y = Inr [(2, Scalar ''c'')]"
    by (simp add: deviceClassOID_readOID_def Atoi_def isDigit_def digitsValue_def)
  have z: "readOID ?n ?Z = Inl (NotFoundError ''no such object'')"
    by (simp add: deviceClassOID_readOID_def)
  have dd: "distinct (map fst ?d)" and de: "distinct (map fst ?e)" by simp_all
  have ok: "\<forall>lr\<in>set ?d. \<forall>err. readOID ?n (snd lr) = Inl err \<longrightarrow> IsNotFoundError err"
    by (simp del: readOID.simps add: x y z)
  note T = readOID_group_union_of_indices [OF dd, of ?n, THEN conjunct1, THEN mp, OF ok]
  then obtain r where
    r: "readOID ?n (DeviceClassOIDs ?d) = Inr r" and
    k: "fst ` set r
         = {i. \<exists>lr\<in>set ?d. \<exists>res. readOID ?n (snd lr) = Inr res \<and> i \<in> fst ` set res}" and
    v: "\<forall>i label. valueAt r i label
                 = (case map_of ?d label of
                      None \<Rightarrow> None
                    | Some reader \<Rightarrow>
                        (case readOID ?n reader of
                           Inl err \<Rightarrow> None
                         | Inr res \<Rightarrow> map_of res i))"
    by (elim exE conjE)
  have "{i. \<exists>lr\<in>set ?d. \<exists>res. readOID ?n (snd lr) = Inr res \<and> i \<in> fst ` set res} = {1, 2}"
    by (simp del: readOID.simps add: x y z) blast
  with k have k': "fst ` set r = {1, 2}" by (simp only:)
  have v1: "valueAt r 1 ''X'' = Some (Scalar ''a'')"
    by (simp del: readOID.simps add: v x)
  have v2: "valueAt r 1 ''Y'' = None"
    by (simp del: readOID.simps add: v y)
  have v3: "valueAt r 2 ''X'' = Some (Scalar ''b'')"
    by (simp del: readOID.simps add: v x)
  have v4: "valueAt r 2 ''Y'' = Some (Scalar ''c'')"
    by (simp del: readOID.simps add: v y)
  have my: "readOID ?m ?Y = Inl (Wrap (OtherError ''timeout'') ''failed to get oid value'')"
    by (simp add: deviceClassOID_readOID_def)
  have "\<exists>lr\<in>set ?e. \<exists>err. readOID ?m (snd lr) = Inl err \<and> \<not> IsNotFoundError err"
    by (simp del: readOID.simps add: my)
  from readOID_group_union_of_indices [OF de, of ?m, THEN conjunct2, THEN mp, OF this]
  obtain lr err where "lr \<in> set ?e" and "readOID ?m (DeviceClassOIDs ?e)
      = Inl (Wrap err (''failed to get value '' @ [CHR 0x27] @ fst lr @ [CHR 0x27]))"
    by blast
  then have f: "isl (readOID ?m (DeviceClassOIDs ?e))"
    by (simp only: sum.disc)
  from r k' v1 v2 v3 v4 f show ?thesis by blast
qed

section \<open>Properties of the property-group decoder\<close>

lemma smallest_fold_started:
  "fold (\<lambda>kv (smallestIndex, firstRun).
          (if fst kv < (if firstRun then fst kv else smallestIndex) then fst kv
           else if firstRun then fst kv else smallestIndex, False))
     groups (s0 :: int, False)
   = (Min (insert s0 (fst ` set groups)), False)"
proof (induction groups arbitrary: s0)
  case Nil
  then show ?case by simp
next
  case (Cons kv groups)
  have step: "fold (\<lambda>kv (smallestIndex, firstRun).
          (if fst kv < (if firstRun then fst kv else smallestIndex) then fst kv
           else if firstRun then fst kv else smallestIndex, False))
     (kv # groups) (s0, False)
    = fold (\<lambda>kv (smallestIndex, firstRun).
          (if fst kv < (if firstRun then fst kv else smallestIndex) then fst kv
           else if firstRun then fst kv else smallestIndex, False))
     groups (min (fst kv) s0, False)"
    by (cases "fst kv < s0") (simp_all add: min_def)
  have "Min (insert (min (fst kv) s0) (fst ` set groups))
      = Min (insert s0 (insert (fst kv) (fst ` set groups)))"
  proof (cases "fst ` set groups = {}")
    case True
    then show ?thesis by (simp add: min.commute)
  next
    case False
    then show ?thesis
      by (simp only: Min_insert finite_imageI finite_set finite_insert insert_not_empty
          not_False_eq_True min.assoc min.commute [of s0])
  qed
  with Cons.IH [of "min (fst kv) s0"] step show ?case by (simp only: list.set image_insert)
qed

lemma smallestIndexOf_Min:
  "groups \<noteq> [] \<Longrightarrow> smallestIndexOf groups = Min (fst ` set groups)"
proof (cases groups)
  case Nil
  assume "groups \<noteq> []"
  with Nil show ?thesis by simp
next
  case (Cons kv rest)
  then show ?thesis
    by (simp add: smallestIndexOf_def Let_def smallest_fold_started)
qed

lemma length_delete_distinct:
  "distinct (map fst al) \<Longrightarrow> k \<in> fst ` set al \<Longrightarrow>
     Suc (length (AList.delete k al)) = length al"
proof (induction al)
  case Nil
  then show ?case by simp
next
  case (Cons x al)
  show ?case
  proof (cases "fst x = k")
    case True
    with Cons.prems have "k \<notin> fst ` set al" by auto
    then have "AList.delete k al = al"
      by (induction al) (auto simp: AList.delete_eq)
    with True show ?thesis by (cases x) (simp add: AList.delete_eq)
  next
    case False
    with Cons show ?thesis by (cases x) (auto simp: AList.delete_eq)
  qed
qed

lemma keys_delete: "fst ` set (AList.delete k al) = fst ` set al - {k}"
  by (induction al) (auto simp: AList.delete_eq)

lemma sortGroups_sorted:
  "length groups = n \<Longrightarrow> distinct (map fst groups) \<Longrightarrow>
   list_all (\<lambda>kv. case snd kv of Scalar v \<Rightarrow> False | Rowmap x \<Rightarrow> True) groups \<Longrightarrow>
   \<exists>out. sortGroups n groups res = Inr (res @ out)
     \<and> map (\<lambda>x. Some (Rowmap x)) out
         = map (map_of groups) (sorted_list_of_set (fst ` set groups))"
proof (induction n arbitrary: groups res)
  case 0
  then show ?case by simp
next
  case (Suc n)
  then have ne: "groups \<noteq> []" by auto
  define s where "s = smallestIndexOf groups"
  have sMin: "s = Min (fst ` set groups)" unfolding s_def using ne by (rule smallestIndexOf_Min)
  have fin: "finite (fst ` set groups)" and nempty: "fst ` set groups \<noteq> {}" using ne by simp_all
  then have sin: "s \<in> fst ` set groups" unfolding sMin by (rule Min_in)
  then obtain v where v: "map_of groups s = Some v"
    by (cases "map_of groups s") (auto simp: map_of_eq_None_iff)
  then have "(s, v) \<in> set groups" by (rule map_of_SomeD)
  with Suc.prems(3) obtain x where x: "v = Rowmap x"
    by (cases v) (auto simp: list_all_iff)
  let ?g = "AList.delete s groups"
  have l: "length ?g = n" using length_delete_distinct [OF Suc.prems(2) sin] Suc.prems(1) by simp
  have d: "distinct (map fst ?g)" using Suc.prems(2) by (rule distinct_delete)
  have a: "list_all (\<lambda>kv. case snd kv of Scalar v \<Rightarrow> False | Rowmap x \<Rightarrow> True) ?g"
    using Suc.prems(3) by (auto simp: list_all_iff AList.delete_eq)
  from Suc.IH [OF l d a, of "res @ [x]"] obtain out where
    o: "sortGroups n ?g (res @ [x]) = Inr (res @ [x] @ out)" and
    m: "map (\<lambda>x. Some (Rowmap x)) out = map (map_of ?g) (sorted_list_of_set (fst ` set ?g))"
    by auto
  have ks: "sorted_list_of_set (fst ` set groups)
      = s # sorted_list_of_set (fst ` set groups - {s})"
    unfolding sMin using fin nempty by (rule sorted_list_of_set_nonempty)
  have "map (map_of ?g) (sorted_list_of_set (fst ` set ?g))
      = map (map_of groups) (sorted_list_of_set (fst ` set groups - {s}))"
    by (simp add: keys_delete delete_conv' fin)
  with m ks v x have "map (\<lambda>x. Some (Rowmap x)) (x # out)
      = map (map_of groups) (sorted_list_of_set (fst ` set groups))"
    by simp
  moreover have "sortGroups (Suc n) groups res = Inr (res @ x # out)"
    using o v x by (simp add: s_def [symmetric] Let_def)
  ultimately show ?case by blast
qed


lemma list_all_update:
  "list_all P al \<Longrightarrow> P (k, v) \<Longrightarrow> list_all P (AList.update k v al)"
  by (induction al) auto

lemma fold_Rowmap_Rowmaps:
  "list_all (\<lambda>kv. case snd kv of Scalar v \<Rightarrow> False | Rowmap x \<Rightarrow> True) acc \<Longrightarrow>
   list_all (\<lambda>kv. case snd kv of Scalar v \<Rightarrow> False | Rowmap x \<Rightarrow> True)
     (fold (\<lambda>kv r. AList.update (fst kv) (Rowmap (snd kv)) r) result acc)"
  by (induction result arbitrary: acc) (simp_all add: list_all_update)

lemma readOID_group_Rowmaps:
  assumes "readOID n (DeviceClassOIDs oids) = Inr groups"
  shows "list_all (\<lambda>kv. case snd kv of Scalar v \<Rightarrow> False | Rowmap x \<Rightarrow> True) groups"
  using assms fold_Rowmap_Rowmaps [of "[]"]
  by (auto split: sum.splits)

lemma Some_Rowmap_inj: "map (\<lambda>x. Some (Rowmap x)) xs = map (\<lambda>x. Some (Rowmap x)) ys \<Longrightarrow> xs = ys"
  by (induction xs arbitrary: ys) auto

text \<open>
  C4: for a read result with distinct keys whose values are all groups, the sort returns the
  groups of the map listed by ascending row index: one group for each key, the group at the
  \<open>j\<close>-th smallest key in place \<open>j\<close>. The result is the same for every order in which the map
  holds its entries. \<open>getProperty\<close> returns this list for the result of every successful read of
  its tree.
\<close>

theorem getProperty_sorted_by_index:
  "(distinct (map fst groups)
      \<and> list_all (\<lambda>kv. case snd kv of Scalar v \<Rightarrow> False | Rowmap x \<Rightarrow> True) groups \<longrightarrow>
      (\<exists>res. sortGroups (length groups) groups [] = Inr res
         \<and> map (\<lambda>x. Some (Rowmap x)) res
             = map (map_of groups) (sorted_list_of_set (fst ` set groups))
         \<and> (distinct (map fst groups') \<and> set groups' = set groups \<longrightarrow>
              sortGroups (length groups') groups' [] = Inr res)))
   \<and> (readOID n (DeviceClassOIDs oids) = Inr groups \<longrightarrow>
        (\<exists>res. getProperty n oids = Inr res
           \<and> map (\<lambda>x. Some (Rowmap x)) res
               = map (map_of groups) (sorted_list_of_set (fst ` set groups))))"
proof (intro conjI impI)
  assume a: "distinct (map fst groups)
      \<and> list_all (\<lambda>kv. case snd kv of Scalar v \<Rightarrow> False | Rowmap x \<Rightarrow> True) groups"
  from sortGroups_sorted [OF refl, of groups "[]"] a obtain res where
    r: "sortGroups (length groups) groups [] = Inr res" and
    m: "map (\<lambda>x. Some (Rowmap x)) res
         = map (map_of groups) (sorted_list_of_set (fst ` set groups))"
    by auto
  have "sortGroups (length groups') groups' [] = Inr res"
    if b: "distinct (map fst groups') \<and> set groups' = set groups"
  proof -
    from b a have "list_all (\<lambda>kv. case snd kv of Scalar v \<Rightarrow> False | Rowmap x \<Rightarrow> True) groups'"
      by (simp add: list_all_iff)
    with sortGroups_sorted [OF refl, of groups' "[]"] b obtain res' where
      r': "sortGroups (length groups') groups' [] = Inr res'" and
      m': "map (\<lambda>x. Some (Rowmap x)) res'
         = map (map_of groups') (sorted_list_of_set (fst ` set groups'))"
      by auto
    have "map_of groups' = map_of groups"
      using a b by (intro map_of_inject_set [THEN iffD2]) simp_all
    with m m' b have "map (\<lambda>x. Some (Rowmap x)) res' = map (\<lambda>x. Some (Rowmap x)) res"
      by simp
    then have "res' = res" by (rule Some_Rowmap_inj)
    with r' show ?thesis by simp
  qed
  with r m show "\<exists>res. sortGroups (length groups) groups [] = Inr res
         \<and> map (\<lambda>x. Some (Rowmap x)) res
             = map (map_of groups) (sorted_list_of_set (fst ` set groups))
         \<and> (distinct (map fst groups') \<and> set groups' = set groups \<longrightarrow>
              sortGroups (length groups') groups' [] = Inr res)"
    by blast
next
  assume g: "readOID n (DeviceClassOIDs oids) = Inr groups"
  have "distinct (map fst groups)" using g by (rule readOID_distinct)
  moreover have "list_all (\<lambda>kv. case snd kv of Scalar v \<Rightarrow> False | Rowmap x \<Rightarrow> True) groups"
    using g by (rule readOID_group_Rowmaps)
  ultimately obtain res where
    r: "sortGroups (length groups) groups [] = Inr res" and
    m: "map (\<lambda>x. Some (Rowmap x)) res
         = map (map_of groups) (sorted_list_of_set (fst ` set groups))"
    using sortGroups_sorted [OF refl, of groups "[]"] by auto
  from g r have "getProperty n oids = Inr res"
    by (simp add: getProperty_def del: readOID.simps)
  with m show "\<exists>res. getProperty n oids = Inr res
           \<and> map (\<lambda>x. Some (Rowmap x)) res
               = map (map_of groups) (sorted_list_of_set (fst ` set groups))"
    by blast
qed

text \<open>
  Witness of C4: the rows 5, 1 and 3, produced in two different orders, are returned in the
  order 1, 3, 5.
\<close>

theorem getProperty_sorted_by_index_witness:
  "sortGroups 3
     [(5, Rowmap [(''ifDescr'', Scalar ''eth5'')]),
      (1, Rowmap [(''ifDescr'', Scalar ''eth1'')]),
      (3, Rowmap [(''ifDescr'', Scalar ''eth3'')])] []
   = Inr [[(''ifDescr'', Scalar ''eth1'')], [(''ifDescr'', Scalar ''eth3'')],
          [(''ifDescr'', Scalar ''eth5'')]]
   \<and> sortGroups 3
     [(3, Rowmap [(''ifDescr'', Scalar ''eth3'')]),
      (5, Rowmap [(''ifDescr'', Scalar ''eth5'')]),
      (1, Rowmap [(''ifDescr'', Scalar ''eth1'')])] []
   = Inr [[(''ifDescr'', Scalar ''eth1'')], [(''ifDescr'', Scalar ''eth3'')],
          [(''ifDescr'', Scalar ''eth5'')]]"
proof -
  let ?g = "[(5, Rowmap [(''ifDescr'', Scalar ''eth5'')]),
      (1, Rowmap [(''ifDescr'', Scalar ''eth1'')]),
      (3, Rowmap [(''ifDescr'', Scalar ''eth3'')])] :: (int \<times> string rowval) list"
  let ?g' = "[(3, Rowmap [(''ifDescr'', Scalar ''eth3'')]),
      (5, Rowmap [(''ifDescr'', Scalar ''eth5'')]),
      (1, Rowmap [(''ifDescr'', Scalar ''eth1'')])] :: (int \<times> string rowval) list"
  have h: "distinct (map fst ?g)
      \<and> list_all (\<lambda>kv. case snd kv of Scalar v \<Rightarrow> False | Rowmap x \<Rightarrow> True) ?g"
    by simp
  have h': "distinct (map fst ?g') \<and> set ?g' = set ?g" by auto
  have k: "sorted_list_of_set (fst ` set ?g) = [1, 3, 5]"
  proof -
    have "fst ` set ?g = set [5, 1, 3]" by simp
    then show ?thesis by (simp only: sorted_list_of_set_sort_remdups) simp
  qed
  from getProperty_sorted_by_index [of ?g ?g', THEN conjunct1, THEN mp, OF h]
  obtain res where
    r: "sortGroups (length ?g) ?g [] = Inr res" and
    m: "map (\<lambda>x. Some (Rowmap x)) res = map (map_of ?g) (sorted_list_of_set (fst ` set ?g))" and
    p: "distinct (map fst ?g') \<and> set ?g' = set ?g \<longrightarrow>
              sortGroups (length ?g') ?g' [] = Inr res"
    by blast
  from m have "map (\<lambda>x. Some (Rowmap x)) res
      = map (\<lambda>x. Some (Rowmap x)) [[(''ifDescr'', Scalar ''eth1'')],
          [(''ifDescr'', Scalar ''eth3'')], [(''ifDescr'', Scalar ''eth5'')]]"
    unfolding k by simp
  then have e: "res = [[(''ifDescr'', Scalar ''eth1'')], [(''ifDescr'', Scalar ''eth3'')],
          [(''ifDescr'', Scalar ''eth5'')]]"
    by (rule Some_Rowmap_inj)
  have l: "length ?g = 3" and l': "length ?g' = 3" by simp_all
  from r p h' show ?thesis unfolding e l l' by blast
qed

section \<open>Properties of the secondary correlation pass\<close>





lemma ParseUint_73: "ParseUint ''73'' = Inr 73"
  by (simp add: ParseUint_def isDigit_def lower_def)


lemma searchInterface_missing:
  "Some s \<notin> set (map IfIndex ifs) \<Longrightarrow> isl (searchInterface k s ifs)"
  by (induction ifs arbitrary: k) (auto split: option.splits)


lemma searchInterface_panics:
  "IfIndex x = None \<Longrightarrow>
     searchInterface k s (x # xs)
       = Inl (Panic ''invalid memory address or nil pointer dereference'')"
  by simp


















end
